theory Spec2Isabelle
  imports Main "HOL-Library.Word"
begin

section \<open>JavaScript values used by the component\<close>

text \<open>
  A JavaScript string is a sequence of 16-bit code units; \<open>includes\<close>, \<open>===\<close> and
  the JSON functions all work on code units. A \<open>number\<close> of the component (a chapter
  or verse number) is an integer. JavaScript holds it in a double, which is exact up to
  \<open>2\<^sup>5\<^sup>3\<close>; the model does not bound it, and has no fractions, infinities or \<open>NaN\<close>.
\<close>

type_synonym code_unit = "16 word"
type_synonym jsstring = "code_unit list"
type_synonym jsnumber = int

definition ch :: "char \<Rightarrow> code_unit" where
  "ch c = of_nat (of_char c)"

definition js :: "string \<Rightarrow> jsstring" where
  "js s = map ch s"

text \<open>\<open>String.prototype.includes\<close>: the argument occurs at some position.\<close>

fun startsWith :: "jsstring \<Rightarrow> jsstring \<Rightarrow> bool" where
  "startsWith s [] = True"
| "startsWith [] (q # qs) = False"
| "startsWith (c # cs) (q # qs) = (c = q \<and> startsWith cs qs)"

fun includes_js :: "jsstring \<Rightarrow> jsstring \<Rightarrow> bool" where
  "includes_js [] q = (q = [])"
| "includes_js (c # cs) q = (startsWith (c # cs) q \<or> includes_js cs q)"

text \<open>
  \<open>String.prototype.toLowerCase\<close> follows the case tables of Unicode, with their special
  cases. The tables are not part of the component: what calls \<open>toLowerCase\<close> takes the
  function as its first argument, and what is proved of it holds whatever the function is.
\<close>

text \<open>\<open>Array.prototype.some\<close>.\<close>

primrec some :: "('a \<Rightarrow> bool) \<Rightarrow> 'a list \<Rightarrow> bool" where
  "some p [] = False"
| "some p (x # xs) = (p x \<or> some p xs)"

text \<open>\<open>Number.prototype.toString\<close> on an integer: decimal digits, with a sign.\<close>

definition digit :: "nat \<Rightarrow> code_unit" where
  "digit d = of_nat (48 + d)"

fun digits :: "nat \<Rightarrow> jsstring" where
  "digits n = (if n < 10 then [digit n] else digits (n div 10) @ [digit (n mod 10)])"

declare digits.simps [simp del]

definition Number_toString :: "jsnumber \<Rightarrow> jsstring" where
  "Number_toString n = (if n < 0 then ch CHR ''-'' # digits (nat (- n)) else digits (nat n))"

section \<open>JSON\<close>

datatype json =
    JNull
  | JBool bool
  | JNum jsnumber
  | JStr jsstring
  | JArr "json list"
  | JObj "(jsstring \<times> json) list"

subsection \<open>\<open>JSON.stringify\<close>\<close>

definition hexDigit :: "nat \<Rightarrow> code_unit" where
  "hexDigit d = (if d < 10 then of_nat (48 + d) else of_nat (87 + d))"

definition UnicodeEscape :: "code_unit \<Rightarrow> jsstring" where
  "UnicodeEscape c =
     [ch CHR 0x5C, ch CHR ''u'',
      hexDigit (unat c div 4096 mod 16), hexDigit (unat c div 256 mod 16),
      hexDigit (unat c div 16 mod 16), hexDigit (unat c mod 16)]"

definition isLeadingSurrogate :: "code_unit \<Rightarrow> bool" where
  "isLeadingSurrogate c = (0xD800 \<le> c \<and> c \<le> 0xDBFF)"

definition isTrailingSurrogate :: "code_unit \<Rightarrow> bool" where
  "isTrailingSurrogate c = (0xDC00 \<le> c \<and> c \<le> 0xDFFF)"

text \<open>
  The escape of one code unit that is not a surrogate: the two-character escapes of
  the table, \<open>\uXXXX\<close> for the other control characters, the unit itself otherwise.
\<close>

definition escapeUnit :: "code_unit \<Rightarrow> jsstring" where
  "escapeUnit c =
     (if c = 0x08 then [ch CHR 0x5C, ch CHR ''b'']
      else if c = 0x09 then [ch CHR 0x5C, ch CHR ''t'']
      else if c = 0x0A then [ch CHR 0x5C, ch CHR ''n'']
      else if c = 0x0C then [ch CHR 0x5C, ch CHR ''f'']
      else if c = 0x0D then [ch CHR 0x5C, ch CHR ''r'']
      else if c = 0x22 then [ch CHR 0x5C, ch CHR 0x22]
      else if c = 0x5C then [ch CHR 0x5C, ch CHR 0x5C]
      else if c < 0x20 then UnicodeEscape c
      else [c])"

text \<open>
  The body of \<open>QuoteJSONString\<close>: a leading surrogate followed by a trailing one is a
  code point and is copied; a surrogate on its own is written as \<open>\uXXXX\<close>.
\<close>

fun quoteBody :: "jsstring \<Rightarrow> jsstring" where
  "quoteBody [] = []"
| "quoteBody [c] =
     (if isLeadingSurrogate c \<or> isTrailingSurrogate c then UnicodeEscape c else escapeUnit c)"
| "quoteBody (c # d # cs) =
     (if isLeadingSurrogate c then
        (if isTrailingSurrogate d then c # d # quoteBody cs
         else UnicodeEscape c @ quoteBody (d # cs))
      else if isTrailingSurrogate c then UnicodeEscape c @ quoteBody (d # cs)
      else escapeUnit c @ quoteBody (d # cs))"

definition QuoteJSONString :: "jsstring \<Rightarrow> jsstring" where
  "QuoteJSONString s = ch CHR 0x22 # quoteBody s @ [ch CHR 0x22]"

fun JSON_stringify :: "json \<Rightarrow> jsstring"
  and stringify_elements :: "json list \<Rightarrow> jsstring"
  and stringify_members :: "(jsstring \<times> json) list \<Rightarrow> jsstring" where
  "JSON_stringify JNull = js ''null''"
| "JSON_stringify (JBool b) = (if b then js ''true'' else js ''false'')"
| "JSON_stringify (JNum n) = Number_toString n"
| "JSON_stringify (JStr s) = QuoteJSONString s"
| "JSON_stringify (JArr vs) = ch CHR ''['' # stringify_elements vs @ [ch CHR '']'']"
| "JSON_stringify (JObj ms) = ch CHR ''{'' # stringify_members ms @ [ch CHR ''}'']"
| "stringify_elements [] = []"
| "stringify_elements [v] = JSON_stringify v"
| "stringify_elements (v # w # vs) =
     JSON_stringify v @ ch CHR '','' # stringify_elements (w # vs)"
| "stringify_members [] = []"
| "stringify_members [(k, v)] = QuoteJSONString k @ ch CHR '':'' # JSON_stringify v"
| "stringify_members ((k, v) # m # ms) =
     QuoteJSONString k @ ch CHR '':'' # JSON_stringify v @ ch CHR '','' # stringify_members (m # ms)"

subsection \<open>\<open>JSON.parse\<close>\<close>

text \<open>
  The grammar of JSON texts, read from the left: white space, the three literals,
  numbers, strings with their escapes, arrays and objects. A number of the texts read
  here is an integer; where a fraction or an exponent follows the digits the result is
  \<open>Unmodelled\<close>, which says nothing of what \<open>JSON.parse\<close> does. An object is read as
  the list of its members in the order of the text; JavaScript keeps the last of two
  members with one key, which matters for no object that \<open>bookmarkFromJSON\<close> accepts.

  The first argument of \<open>parseValue\<close> bounds the nesting still allowed; \<open>JSON_parse\<close>
  starts it above the length of the text, and each level of nesting uses up a bracket
  (\<open>JSON_parse_fuel\<close> below: no larger bound gives another result).
\<close>

text \<open>
  What a call can fail with: a \<open>fetch\<close> or \<open>res.json()\<close> that rejects, the
  \<open>SyntaxError\<close> of \<open>JSON.parse\<close>, and \<open>Unmodelled\<close> for an input on which the model
  makes no statement.
\<close>

datatype error = NetworkError | SyntaxError | Unmodelled

definition isWhitespace :: "code_unit \<Rightarrow> bool" where
  "isWhitespace c = (c = 0x20 \<or> c = 0x09 \<or> c = 0x0A \<or> c = 0x0D)"

fun skipWhitespace :: "jsstring \<Rightarrow> jsstring" where
  "skipWhitespace [] = []"
| "skipWhitespace (c # cs) = (if isWhitespace c then skipWhitespace cs else c # cs)"

definition isDigit :: "code_unit \<Rightarrow> bool" where
  "isDigit c = (0x30 \<le> c \<and> c \<le> 0x39)"

definition hexValue :: "code_unit \<Rightarrow> nat option" where
  "hexValue c =
     (if 0x30 \<le> c \<and> c \<le> 0x39 then Some (unat c - 48)
      else if 0x61 \<le> c \<and> c \<le> 0x66 then Some (unat c - 87)
      else if 0x41 \<le> c \<and> c \<le> 0x46 then Some (unat c - 55)
      else None)"

definition hex4 :: "code_unit \<Rightarrow> code_unit \<Rightarrow> code_unit \<Rightarrow> code_unit \<Rightarrow> code_unit option" where
  "hex4 h1 h2 h3 h4 =
     (case (hexValue h1, hexValue h2, hexValue h3, hexValue h4) of
        (Some a, Some b, Some c, Some d) \<Rightarrow> Some (of_nat (a * 4096 + b * 256 + c * 16 + d))
      | _ \<Rightarrow> None)"

definition unescape :: "code_unit \<Rightarrow> code_unit option" where
  "unescape e =
     (if e = ch CHR 0x22 then Some 0x22
      else if e = ch CHR 0x5C then Some 0x5C
      else if e = ch CHR ''/'' then Some 0x2F
      else if e = ch CHR ''b'' then Some 0x08
      else if e = ch CHR ''f'' then Some 0x0C
      else if e = ch CHR ''n'' then Some 0x0A
      else if e = ch CHR ''r'' then Some 0x0D
      else if e = ch CHR ''t'' then Some 0x09
      else None)"

definition consUnit :: "code_unit \<Rightarrow> error + jsstring \<times> jsstring \<Rightarrow> error + jsstring \<times> jsstring" where
  "consUnit u r = (case r of Inl e \<Rightarrow> Inl e | Inr (s, rest) \<Rightarrow> Inr (u # s, rest))"

fun parseStringBody :: "jsstring \<Rightarrow> error + jsstring \<times> jsstring" where
  "parseStringBody [] = Inl SyntaxError"
| "parseStringBody (c # cs) =
     (if c = ch CHR 0x22 then Inr ([], cs)
      else if c = ch CHR 0x5C then
        (case cs of
           [] \<Rightarrow> Inl SyntaxError
         | e # es \<Rightarrow>
             if e = ch CHR ''u'' then
               (case es of
                  h1 # h2 # h3 # h4 # rest \<Rightarrow>
                    (case hex4 h1 h2 h3 h4 of
                       None \<Rightarrow> Inl SyntaxError
                     | Some u \<Rightarrow> consUnit u (parseStringBody rest))
                | _ \<Rightarrow> Inl SyntaxError)
             else
               (case unescape e of
                  None \<Rightarrow> Inl SyntaxError
                | Some u \<Rightarrow> consUnit u (parseStringBody es)))
      else if c < 0x20 then Inl SyntaxError
      else consUnit c (parseStringBody cs))"

fun parseDigits :: "nat \<Rightarrow> jsstring \<Rightarrow> nat \<times> jsstring" where
  "parseDigits acc [] = (acc, [])"
| "parseDigits acc (c # cs) =
     (if isDigit c then parseDigits (acc * 10 + (unat c - 48)) cs else (acc, c # cs))"

definition parseNatural :: "jsstring \<Rightarrow> error + nat \<times> jsstring" where
  "parseNatural inp =
     (case inp of
        [] \<Rightarrow> Inl SyntaxError
      | c # cs \<Rightarrow>
          if c = ch CHR ''0'' then Inr (0, cs)
          else if isDigit c then Inr (parseDigits 0 (c # cs))
          else Inl SyntaxError)"

definition beyondInteger :: "jsstring \<Rightarrow> bool" where
  "beyondInteger rest =
     (case rest of
        [] \<Rightarrow> False
      | c # cs \<Rightarrow> c = ch CHR ''.'' \<or> c = ch CHR ''e'' \<or> c = ch CHR ''E'')"

definition parseNumber :: "jsstring \<Rightarrow> error + json \<times> jsstring" where
  "parseNumber inp =
     (case inp of
        [] \<Rightarrow> Inl SyntaxError
      | c # cs \<Rightarrow>
          if c = ch CHR ''-'' then
            (case parseNatural cs of
               Inl e \<Rightarrow> Inl e
             | Inr (n, rest) \<Rightarrow>
                 if beyondInteger rest then Inl Unmodelled else Inr (JNum (- int n), rest))
          else
            (case parseNatural (c # cs) of
               Inl e \<Rightarrow> Inl e
             | Inr (n, rest) \<Rightarrow>
                 if beyondInteger rest then Inl Unmodelled else Inr (JNum (int n), rest)))"

fun parseValue :: "nat \<Rightarrow> jsstring \<Rightarrow> error + json \<times> jsstring"
  and parseElements :: "nat \<Rightarrow> jsstring \<Rightarrow> error + json list \<times> jsstring"
  and parseMembers :: "nat \<Rightarrow> jsstring \<Rightarrow> error + (jsstring \<times> json) list \<times> jsstring" where
  "parseValue 0 inp = Inl Unmodelled"
| "parseValue (Suc n) [] = Inl SyntaxError"
| "parseValue (Suc n) (c # cs) =
     (if c = ch CHR ''['' then
        (case skipWhitespace cs of
           [] \<Rightarrow> Inl SyntaxError
         | d # ds \<Rightarrow>
             if d = ch CHR '']'' then Inr (JArr [], ds)
             else (case parseElements n (d # ds) of
                     Inl e \<Rightarrow> Inl e
                   | Inr (vs, rest) \<Rightarrow> Inr (JArr vs, rest)))
      else if c = ch CHR ''{'' then
        (case skipWhitespace cs of
           [] \<Rightarrow> Inl SyntaxError
         | d # ds \<Rightarrow>
             if d = ch CHR ''}'' then Inr (JObj [], ds)
             else (case parseMembers n (d # ds) of
                     Inl e \<Rightarrow> Inl e
                   | Inr (ms, rest) \<Rightarrow> Inr (JObj ms, rest)))
      else if c = ch CHR 0x22 then
        (case parseStringBody cs of
           Inl e \<Rightarrow> Inl e
         | Inr (s, rest) \<Rightarrow> Inr (JStr s, rest))
      else if startsWith (c # cs) (js ''true'') then Inr (JBool True, drop 4 (c # cs))
      else if startsWith (c # cs) (js ''false'') then Inr (JBool False, drop 5 (c # cs))
      else if startsWith (c # cs) (js ''null'') then Inr (JNull, drop 4 (c # cs))
      else parseNumber (c # cs))"
| "parseElements 0 inp = Inl Unmodelled"
| "parseElements (Suc n) inp =
     (case parseValue (Suc n) inp of
        Inl e \<Rightarrow> Inl e
      | Inr (v, rest) \<Rightarrow>
          (case skipWhitespace rest of
             [] \<Rightarrow> Inl SyntaxError
           | c # cs \<Rightarrow>
               if c = ch CHR '','' then
                 (case parseElements n (skipWhitespace cs) of
                    Inl e \<Rightarrow> Inl e
                  | Inr (vs, rest') \<Rightarrow> Inr (v # vs, rest'))
               else if c = ch CHR '']'' then Inr ([v], cs)
               else Inl SyntaxError))"
| "parseMembers 0 inp = Inl Unmodelled"
| "parseMembers (Suc n) [] = Inl SyntaxError"
| "parseMembers (Suc n) (q # qs) =
     (if q = ch CHR 0x22 then
        (case parseStringBody qs of
           Inl e \<Rightarrow> Inl e
         | Inr (k, rest) \<Rightarrow>
             (case skipWhitespace rest of
                [] \<Rightarrow> Inl SyntaxError
              | c # cs \<Rightarrow>
                  if c = ch CHR '':'' then
                    (case parseValue (Suc n) (skipWhitespace cs) of
                       Inl e \<Rightarrow> Inl e
                     | Inr (v, rest') \<Rightarrow>
                         (case skipWhitespace rest' of
                            [] \<Rightarrow> Inl SyntaxError
                          | d # ds \<Rightarrow>
                              if d = ch CHR '','' then
                                (case parseMembers n (skipWhitespace ds) of
                                   Inl e \<Rightarrow> Inl e
                                 | Inr (ms, rest'') \<Rightarrow> Inr ((k, v) # ms, rest''))
                              else if d = ch CHR ''}'' then Inr ([(k, v)], ds)
                              else Inl SyntaxError))
                  else Inl SyntaxError))
      else Inl SyntaxError)"

definition JSON_parse :: "jsstring \<Rightarrow> error + json" where
  "JSON_parse text =
     (case parseValue (Suc (length text)) (skipWhitespace text) of
        Inl e \<Rightarrow> Inl e
      | Inr (v, rest) \<Rightarrow> if skipWhitespace rest = [] then Inr v else Inl SyntaxError)"

text \<open>What may follow a number: anything but a digit, a fraction or an exponent.\<close>

definition delimited :: "jsstring \<Rightarrow> bool" where
  "delimited rest =
     (case rest of
        [] \<Rightarrow> True
      | c # cs \<Rightarrow> \<not> isDigit c \<and> c \<noteq> ch CHR ''.'' \<and> c \<noteq> ch CHR ''e'' \<and> c \<noteq> ch CHR ''E'')"

section \<open>The reader component\<close>

subsection \<open>Records\<close>

text \<open>
  Modelled from the spec: the declarations of \<open>Surah\<close>, \<open>Ayah\<close> and \<open>Language\<close> are in
  \<open>types.ts\<close>, which is not among the sources. The spec's Section has an integer id, a
  local and an English name, an item count and an origin type; its Item has a text and
  an index in its section. The fields below are those, under the names the component
  reads them by. \<open>Language\<close> is a string; the component only compares it with \<open>'ar'\<close>.
\<close>

record Surah =
  number :: jsnumber
  name :: jsstring
  englishName :: jsstring
  numberOfAyahs :: jsnumber
  revelationType :: jsstring

record Ayah =
  number_ayah :: jsnumber
  text_ayah :: jsstring
  numberInSurah :: jsnumber

type_synonym Language = jsstring

record SavedBookmark =
  surahNumber :: jsnumber
  surahName :: jsstring
  ayahNumber :: jsnumber
  text_bookmark :: jsstring

text \<open>The seven \<open>useState\<close> cells of \<open>QuranReader\<close>.\<close>

record state =
  surahs :: "Surah list"
  selectedSurah :: "Surah option"
  ayahs :: "Ayah list"
  loading :: bool
  searchTerm :: jsstring
  bookmarks :: "SavedBookmark list"
  showBookmarksOnly :: bool

definition initialState :: state where
  "initialState =
     \<lparr>surahs = [], selectedSurah = None, ayahs = [], loading = True, searchTerm = [],
      bookmarks = [], showBookmarksOnly = False\<rparr>"

text \<open>
  What the component acts on besides its own state: the browser's local storage, the
  errors written with \<open>console.error\<close>, and the URLs it has requested with \<open>fetch\<close>.
\<close>

record world =
  ui :: state
  localStorage :: "jsstring \<rightharpoonup> jsstring"
  console :: "error list"
  requests :: "jsstring list"

subsection \<open>Bookmarks\<close>

text \<open>
  The test \<open>b.surahNumber === s && b.ayahNumber === a\<close>, which the component writes out
  in four places.
\<close>

definition sameAyah :: "jsnumber \<Rightarrow> jsnumber \<Rightarrow> SavedBookmark \<Rightarrow> bool" where
  "sameAyah s a b = (surahNumber b = s \<and> ayahNumber b = a)"

text \<open>
  A handler reads \<open>bookmarks\<close> from the render it was created in and updates the latest
  value; between two events the component has rendered again, so the two are the same
  list.
\<close>

definition toggleAyahBookmark :: "Language \<Rightarrow> Ayah \<Rightarrow> state \<Rightarrow> state" where
  "toggleAyahBookmark lang ayah st =
     (case selectedSurah st of
        None \<Rightarrow> st
      | Some sel \<Rightarrow>
          let isSaved = some (sameAyah (number sel) (numberInSurah ayah)) (bookmarks st) in
          if isSaved then
            st\<lparr>bookmarks :=
                 filter (\<lambda>b. \<not> sameAyah (number sel) (numberInSurah ayah) b) (bookmarks st)\<rparr>
          else
            st\<lparr>bookmarks := bookmarks st @
                 [\<lparr>surahNumber = number sel,
                   surahName = (if lang = js ''ar'' then name sel else englishName sel),
                   ayahNumber = numberInSurah ayah,
                   text_bookmark = text_ayah ayah\<rparr>]\<rparr>)"

definition isAyahBookmarked :: "state \<Rightarrow> jsnumber \<Rightarrow> bool" where
  "isAyahBookmarked st ayahNumber' =
     (case selectedSurah st of
        None \<Rightarrow> False
      | Some sel \<Rightarrow> some (sameAyah (number sel) ayahNumber') (bookmarks st))"

definition deleteBookmark :: "jsnumber \<Rightarrow> jsnumber \<Rightarrow> state \<Rightarrow> state" where
  "deleteBookmark surahNumber' ayahNumber' st =
     st\<lparr>bookmarks := filter (\<lambda>b. \<not> sameAyah surahNumber' ayahNumber' b) (bookmarks st)\<rparr>"

subsection \<open>The catalogue filter\<close>

definition filteredSurahs :: "(jsstring \<Rightarrow> jsstring) \<Rightarrow> state \<Rightarrow> Surah list" where
  "filteredSurahs toLowerCase st =
     filter (\<lambda>s. includes_js (name s) (searchTerm st) \<or>
                 includes_js (toLowerCase (englishName s)) (toLowerCase (searchTerm st)))
       (surahs st)"

subsection \<open>Fetching\<close>

text \<open>
  A call of \<open>fetchSurahs\<close> or \<open>loadSurah\<close> is taken together with the answer it gets.
  \<open>fetch\<close> rejects (\<open>Inl\<close>) or resolves with a response (\<open>Inr\<close>), which has the status
  of the answer and what \<open>res.json()\<close> followed by \<open>data.data\<close> gives: an error, or the
  data. The body after \<open>await\<close> runs to its end before another event is handled; answers
  that arrive out of order are not modelled.
\<close>

datatype 'a response = Response (status: nat) (json: "error + 'a")

text \<open>
  What the \<open>try\<close> block of either function gets from its two \<open>await\<close>s, or is thrown.
  Neither function reads \<open>res.ok\<close> or \<open>res.status\<close>.
\<close>

definition decoded :: "error + 'a response \<Rightarrow> error + 'a" where
  "decoded r = (case r of Inl err \<Rightarrow> Inl err | Inr res \<Rightarrow> json res)"

definition fetchSurahs :: "error + Surah list response \<Rightarrow> world \<Rightarrow> world" where
  "fetchSurahs r w =
     (let w1 = w\<lparr>requests := requests w @ [js ''https://api.alquran.cloud/v1/surah'']\<rparr> in
      case decoded r of
        Inr data \<Rightarrow> w1\<lparr>ui := (ui w1)\<lparr>surahs := data, loading := False\<rparr>\<rparr>
      | Inl err \<Rightarrow> w1\<lparr>console := console w1 @ [err]\<rparr>)"

definition loadSurah :: "Surah \<Rightarrow> error + Ayah list response \<Rightarrow> world \<Rightarrow> world" where
  "loadSurah surah r w =
     (let w1 = w\<lparr>ui := (ui w)\<lparr>loading := True\<rparr>,
                 requests := requests w @
                   [js ''https://api.alquran.cloud/v1/surah/'' @ Number_toString (number surah)]\<rparr> in
      case decoded r of
        Inr data \<Rightarrow>
          w1\<lparr>ui := (ui w1)\<lparr>ayahs := data, selectedSurah := Some surah, loading := False,
                             showBookmarksOnly := False\<rparr>\<rparr>
      | Inl err \<Rightarrow> w1\<lparr>console := console w1 @ [err]\<rparr>)"

definition goToBookmarkedSurah :: "jsnumber \<Rightarrow> error + Ayah list response \<Rightarrow> world \<Rightarrow> world" where
  "goToBookmarkedSurah surahNum r w =
     (case find (\<lambda>s. number s = surahNum) (surahs (ui w)) of
        Some surah \<Rightarrow> loadSurah surah r w
      | None \<Rightarrow> w)"

subsection \<open>Persistence\<close>

text \<open>
  A value of type \<open>SavedBookmark[]\<close> as \<open>JSON.stringify\<close> sees it: an array of objects
  whose four properties are in the order of the object literal in \<open>toggleAyahBookmark\<close>.
\<close>

definition bookmarkToJSON :: "SavedBookmark \<Rightarrow> json" where
  "bookmarkToJSON b =
     JObj [(js ''surahNumber'', JNum (surahNumber b)),
           (js ''surahName'', JStr (surahName b)),
           (js ''ayahNumber'', JNum (ayahNumber b)),
           (js ''text'', JStr (text_bookmark b))]"

definition bookmarksToJSON :: "SavedBookmark list \<Rightarrow> json" where
  "bookmarksToJSON bs = JArr (map bookmarkToJSON bs)"

text \<open>The effect with the dependency \<open>[bookmarks]\<close>.\<close>

definition persistBookmarks :: "world \<Rightarrow> world" where
  "persistBookmarks w =
     w\<lparr>localStorage := (localStorage w)
         (js ''quran_bookmarks'' \<mapsto> JSON_stringify (bookmarksToJSON (bookmarks (ui w))))\<rparr>"

text \<open>
  The bookmarks that a parsed value stands for, when it has the shape that
  \<open>bookmarksToJSON\<close> writes. The component stores whatever \<open>JSON.parse\<close> returns
  without looking at it; a value of another shape is outside the typed state, and
  \<open>loadBookmarks\<close> answers \<open>Unmodelled\<close> for it.
\<close>

definition bookmarkFromJSON :: "json \<Rightarrow> SavedBookmark option" where
  "bookmarkFromJSON v =
     (case v of
        JObj [(k1, JNum sn), (k2, JStr nm), (k3, JNum an), (k4, JStr tx)] \<Rightarrow>
          if k1 = js ''surahNumber'' \<and> k2 = js ''surahName'' \<and>
             k3 = js ''ayahNumber'' \<and> k4 = js ''text''
          then Some \<lparr>surahNumber = sn, surahName = nm, ayahNumber = an, text_bookmark = tx\<rparr>
          else None
      | _ \<Rightarrow> None)"

definition bookmarksFromJSON :: "json \<Rightarrow> SavedBookmark list option" where
  "bookmarksFromJSON v =
     (case v of
        JArr vs \<Rightarrow> those (map bookmarkFromJSON vs)
      | _ \<Rightarrow> None)"

text \<open>
  The second half of the mount effect: \<open>getItem\<close>, the test \<open>if (saved)\<close> (false for
  \<open>null\<close> and for the empty string), \<open>JSON.parse\<close> and \<open>setBookmarks\<close>. Nothing
  catches what \<open>JSON.parse\<close> throws: it is the \<open>Inl\<close> result.
\<close>

definition loadBookmarks :: "world \<Rightarrow> error + world" where
  "loadBookmarks w =
     (case localStorage w (js ''quran_bookmarks'') of
        None \<Rightarrow> Inr w
      | Some saved \<Rightarrow>
          if saved = [] then Inr w
          else
            (case JSON_parse saved of
               Inl e \<Rightarrow> Inl e
             | Inr v \<Rightarrow>
                 (case bookmarksFromJSON v of
                    None \<Rightarrow> Inl Unmodelled
                  | Some bs \<Rightarrow> Inr (w\<lparr>ui := (ui w)\<lparr>bookmarks := bs\<rparr>\<rparr>))))"

text \<open>
  Mounting, on the storage, console and requests of \<open>w\<close>: the state starts from the
  initial values of \<open>useState\<close>; the first effect calls \<open>fetchSurahs\<close> and loads the
  bookmarks; the persisting effect has run once the loaded bookmarks are rendered.
\<close>

definition mount :: "error + Surah list response \<Rightarrow> world \<Rightarrow> error + world" where
  "mount r w =
     (case loadBookmarks (fetchSurahs r (w\<lparr>ui := initialState\<rparr>)) of
        Inl e \<Rightarrow> Inl e
      | Inr w' \<Rightarrow> Inr (persistBookmarks w'))"

subsection \<open>Events\<close>

text \<open>
  The events of the mounted component: the answer to the request for the catalogue, and
  what the user does. The persisting effect runs after every handler that has called
  \<open>setBookmarks\<close>.
\<close>

datatype event =
    FetchSurahs "error + Surah list response"
  | LoadSurah Surah "error + Ayah list response"
  | GoToBookmarkedSurah jsnumber "error + Ayah list response"
  | ToggleAyahBookmark Ayah
  | DeleteBookmark jsnumber jsnumber
  | Back
  | SetShowBookmarksOnly bool
  | SetSearchTerm jsstring

fun handle :: "Language \<Rightarrow> event \<Rightarrow> world \<Rightarrow> world" where
  "handle lang (FetchSurahs r) w = fetchSurahs r w"
| "handle lang (LoadSurah surah r) w = loadSurah surah r w"
| "handle lang (GoToBookmarkedSurah surahNum r) w = goToBookmarkedSurah surahNum r w"
| "handle lang (ToggleAyahBookmark ayah) w =
     (case selectedSurah (ui w) of
        None \<Rightarrow> w
      | Some sel \<Rightarrow> persistBookmarks (w\<lparr>ui := toggleAyahBookmark lang ayah (ui w)\<rparr>))"
| "handle lang (DeleteBookmark surahNumber' ayahNumber') w =
     persistBookmarks (w\<lparr>ui := deleteBookmark surahNumber' ayahNumber' (ui w)\<rparr>)"
| "handle lang Back w = w\<lparr>ui := (ui w)\<lparr>selectedSurah := None\<rparr>\<rparr>"
| "handle lang (SetShowBookmarksOnly b) w = w\<lparr>ui := (ui w)\<lparr>showBookmarksOnly := b\<rparr>\<rparr>"
| "handle lang (SetSearchTerm s) w = w\<lparr>ui := (ui w)\<lparr>searchTerm := s\<rparr>\<rparr>"

fun run :: "Language \<Rightarrow> event list \<Rightarrow> world \<Rightarrow> world" where
  "run lang [] w = w"
| "run lang (e # es) w = run lang es (handle lang e w)"

section \<open>Properties and examples\<close>

text \<open>No two bookmarks share a (surah number, ayah number) pair.\<close>

definition uniqueKeys :: "SavedBookmark list \<Rightarrow> bool" where
  "uniqueKeys bs = distinct (map (\<lambda>b. (surahNumber b, ayahNumber b)) bs)"

text \<open>
  Membership by key: the test \<open>bookmarks.some(b => b.surahNumber === s && b.ayahNumber === a)\<close>
  of lines 71 and 86, for a surah number given with the ayah number.
\<close>

definition contains :: "jsnumber \<Rightarrow> jsnumber \<Rightarrow> state \<Rightarrow> bool" where
  "contains s a st = some (sameAyah s a) (bookmarks st)"

text \<open>
  A failed fetch as the specification words it: the request failed, the status is not
  one of success, or the body is malformed. It is compared with what \<open>fetchSurahs\<close>
  treats as a failure below.
\<close>

definition fetchFails :: "error + 'a response \<Rightarrow> bool" where
  "fetchFails r =
     (case r of
        Inl err \<Rightarrow> True
      | Inr res \<Rightarrow> status res < 200 \<or> 300 \<le> status res \<or> isl (json res))"

text \<open>An answer with status 200 and data that decode.\<close>

definition ok :: "'a \<Rightarrow> error + 'a response" where
  "ok data = Inr (Response 200 (Inr data))"

text \<open>
  On a string of ASCII characters and Arabic letters, which have no case,
  \<open>String.prototype.toLowerCase\<close> replaces the letters A to Z by a to z and nothing else.
  The examples have only such strings, and take this function for the case mapping.
\<close>

definition asciiLowerUnit :: "code_unit \<Rightarrow> code_unit" where
  "asciiLowerUnit c = (if 0x41 \<le> c \<and> c \<le> 0x5A then c + 0x20 else c)"

definition asciiLowerCase :: "jsstring \<Rightarrow> jsstring" where
  "asciiLowerCase s = map asciiLowerUnit s"

text \<open>The bookmark that \<open>toggleAyahBookmark\<close> builds for an ayah of the selected surah.\<close>

definition newBookmark :: "Language \<Rightarrow> Surah \<Rightarrow> Ayah \<Rightarrow> SavedBookmark" where
  "newBookmark lang sel ayah =
     \<lparr>surahNumber = number sel,
      surahName = (if lang = js ''ar'' then name sel else englishName sel),
      ayahNumber = numberInSurah ayah,
      text_bookmark = text_ayah ayah\<rparr>"

text \<open>
  The filter as the specification words it: one criterion, chosen by the active
  language. It is compared with \<open>filteredSurahs\<close> below.
\<close>

definition filterByLanguage ::
  "(jsstring \<Rightarrow> jsstring) \<Rightarrow> Language \<Rightarrow> jsstring \<Rightarrow> Surah list \<Rightarrow> Surah list" where
  "filterByLanguage toLowerCase lang query ss =
     (if lang = js ''ar'' then filter (\<lambda>s. includes_js (name s) query) ss
      else filter (\<lambda>s. includes_js (toLowerCase (englishName s)) (toLowerCase query)) ss)"

text \<open>Two surahs of the catalogue, with their Arabic names as code units, and a verse.\<close>

definition exampleFatiha :: Surah where
  "exampleFatiha =
     \<lparr>number = 1, name = [0x627, 0x644, 0x641, 0x627, 0x62A, 0x62D, 0x629],
      englishName = js ''Al-Faatiha'', numberOfAyahs = 7, revelationType = js ''Meccan''\<rparr>"

definition exampleBaqara :: Surah where
  "exampleBaqara =
     \<lparr>number = 2, name = [0x627, 0x644, 0x628, 0x642, 0x631, 0x629],
      englishName = js ''Al-Baqara'', numberOfAyahs = 286, revelationType = js ''Medinan''\<rparr>"

definition exampleAyah :: "jsnumber \<Rightarrow> Ayah" where
  "exampleAyah n = \<lparr>number_ayah = 7 + n, text_ayah = js ''verse'', numberInSurah = n\<rparr>"

definition initialWorld :: world where
  "initialWorld = \<lparr>ui = initialState, localStorage = Map.empty, console = [], requests = []\<rparr>"

text \<open>
  Three states the examples start from: the first surah open with two bookmarks; the
  catalogue showing bookmarks only, reached from the initial state; the second surah
  open with no bookmark yet.
\<close>

definition exampleDetail :: state where
  "exampleDetail =
     initialState\<lparr>surahs := [exampleFatiha, exampleBaqara], selectedSurah := Some exampleFatiha,
       ayahs := [exampleAyah 1, exampleAyah 2], loading := False,
       bookmarks := [newBookmark (js ''en'') exampleFatiha (exampleAyah 1),
                     newBookmark (js ''en'') exampleBaqara (exampleAyah 2)]\<rparr>"

definition exampleCatalog :: world where
  "exampleCatalog =
     run (js ''en'')
       [FetchSurahs (ok [exampleFatiha, exampleBaqara]),
        LoadSurah exampleBaqara (ok [exampleAyah 5]),
        ToggleAyahBookmark (exampleAyah 5),
        Back,
        SetShowBookmarksOnly True]
       initialWorld"

definition exampleReading :: world where
  "exampleReading =
     run (js ''en'')
       [FetchSurahs (ok [exampleFatiha, exampleBaqara]),
        LoadSurah exampleBaqara (ok [exampleAyah 5])]
       initialWorld"

lemmas example_defs = exampleFatiha_def exampleBaqara_def exampleAyah_def initialWorld_def
  initialState_def

lemmas handler_defs = ok_def decoded_def fetchSurahs_def loadSurah_def goToBookmarkedSurah_def
  toggleAyahBookmark_def deleteBookmark_def isAyahBookmarked_def persistBookmarks_def
  sameAyah_def

section \<open>Strings and lists\<close>

lemma startsWith_iff: "startsWith s q \<longleftrightarrow> (\<exists>post. s = q @ post)"
  by (induction s q rule: startsWith.induct) auto

lemma includes_js_iff: "includes_js s q \<longleftrightarrow> (\<exists>pre post. s = pre @ q @ post)"
proof (induction s)
  case Nil
  show ?case by auto
next
  case (Cons c cs)
  have "(\<exists>pre post. c # cs = pre @ q @ post) \<longleftrightarrow>
        (\<exists>post. c # cs = q @ post) \<or> (\<exists>pre post. cs = pre @ q @ post)"
    (is "?L \<longleftrightarrow> ?A \<or> ?B")
  proof
    assume ?L
    then obtain pre post where e: "c # cs = pre @ q @ post" by blast
    show "?A \<or> ?B"
    proof (cases pre)
      case Nil
      with e show ?thesis by auto
    next
      case (Cons p ps)
      with e have "cs = ps @ q @ post" by simp
      then show ?thesis by blast
    qed
  next
    assume "?A \<or> ?B"
    then show ?L
    proof
      assume ?A
      then obtain post where "c # cs = [] @ q @ post" by auto
      then show ?L by blast
    next
      assume ?B
      then obtain pre post where "cs = pre @ q @ post" by blast
      then have "c # cs = (c # pre) @ q @ post" by simp
      then show ?L by blast
    qed
  qed
  with Cons show ?case by (simp add: startsWith_iff)
qed

lemma includes_js_empty: "includes_js s [] = True"
  by (cases s) simp_all

lemma some_iff: "some p xs \<longleftrightarrow> (\<exists>x \<in> set xs. p x)"
  by (induction xs) auto

lemma filter_not_some: "\<not> some p xs \<Longrightarrow> filter (\<lambda>x. \<not> p x) xs = xs"
  by (induction xs) auto

lemma some_filter_not: "some p (filter (\<lambda>x. \<not> p x) xs) = False"
  by (induction xs) auto

section \<open>The bound on nesting is never reached\<close>

text \<open>
  Every parser returns less than it was given, so a bound above the length of the text
  is as good as any larger one: \<open>JSON_parse\<close> never answers for want of it.
\<close>

lemma skipWhitespace_length: "length (skipWhitespace inp) \<le> length inp"
  by (induction inp) auto

lemma consUnit_Inr:
  "consUnit u r = Inr (s, rest) \<Longrightarrow> \<exists>s'. r = Inr (s', rest)"
  by (auto simp: consUnit_def split: sum.splits)

lemma parseStringBody_shorter:
  "parseStringBody inp = Inr (s, rest) \<Longrightarrow> length rest < length inp"
proof (induction inp arbitrary: s rule: parseStringBody.induct)
  case 1
  then show ?case by simp
next
  case (2 c cs)
  show ?case
  proof (cases "c = ch CHR 0x22")
    case True
    with 2(4) show ?thesis by simp
  next
    case quote: False
    show ?thesis
    proof (cases "c = ch CHR 0x5C")
      case False
      with quote 2(4) obtain s' where c: "\<not> c < 0x20" and "parseStringBody cs = Inr (s', rest)"
        by (auto split: if_splits dest: consUnit_Inr)
      with quote False have "length rest < length cs"
        by (intro "2.IH"(3)) auto
      then show ?thesis by simp
    next
      case True
      with quote 2(4) obtain e es where cs: "cs = e # es"
        by (cases cs) auto
      show ?thesis
      proof (cases "e = ch CHR ''u''")
        case u: True
        with quote True cs 2(4) obtain h1 h2 h3 h4 r u' where
          es: "es = h1 # h2 # h3 # h4 # r" and h: "hex4 h1 h2 h3 h4 = Some u'"
          by (auto split: list.splits option.splits)
        with quote True cs u 2(4) obtain s' where "parseStringBody r = Inr (s', rest)"
          by (auto dest: consUnit_Inr)
        with quote True cs u es h have "length rest < length r"
          by (intro "2.IH"(1)) auto
        with cs es show ?thesis by simp
      next
        case False
        with quote True cs 2(4) obtain u' s' where
          "unescape e = Some u'" "parseStringBody es = Inr (s', rest)"
          by (auto split: option.splits dest: consUnit_Inr)
        with quote True cs False have "length rest < length es"
          by (intro "2.IH"(2)) auto
        with cs show ?thesis by simp
      qed
    qed
  qed
qed

lemma parseDigits_shorter:
  "parseDigits acc inp = (n, rest) \<Longrightarrow> length rest \<le> length inp"
  by (induction acc inp rule: parseDigits.induct) (auto split: if_splits)

lemma parseNatural_shorter:
  "parseNatural inp = Inr (n, rest) \<Longrightarrow> length rest < length inp"
proof (cases inp)
  case Nil
  then show "parseNatural inp = Inr (n, rest) \<Longrightarrow> ?thesis" by (simp add: parseNatural_def)
next
  case (Cons c cs)
  assume p: "parseNatural inp = Inr (n, rest)"
  show ?thesis
  proof (cases "c = ch CHR ''0''")
    case True
    with Cons p show ?thesis by (simp add: parseNatural_def)
  next
    case False
    with Cons p have d: "isDigit c" and "parseDigits 0 (c # cs) = (n, rest)"
      by (auto simp: parseNatural_def split: if_splits)
    then have "parseDigits (0 * 10 + (unat c - 48)) cs = (n, rest)" by simp
    then have "length rest \<le> length cs" by (rule parseDigits_shorter)
    with Cons show ?thesis by simp
  qed
qed

lemma parseNumber_shorter:
  "parseNumber inp = Inr (v, rest) \<Longrightarrow> length rest < length inp"
  by (cases inp)
     (auto simp: parseNumber_def split: if_splits sum.splits dest!: parseNatural_shorter)

lemma skipWhitespace_Cons: "skipWhitespace x = c # cs \<Longrightarrow> length cs < length x"
  using skipWhitespace_length [of x] by simp

lemma startsWith_drop:
  "startsWith inp q \<Longrightarrow> q \<noteq> [] \<Longrightarrow> length (drop (length q) inp) < length inp"
  by (auto simp: startsWith_iff)

lemma literal_lengths: "length (js ''true'') = 4" "length (js ''false'') = 5" "length (js ''null'') = 4"
  "js ''true'' \<noteq> []" "js ''false'' \<noteq> []" "js ''null'' \<noteq> []"
  by (simp_all add: js_def)

lemma parse_shorter:
  "parseValue n inp = Inr (v, rest) \<Longrightarrow> length rest < length inp"
  "parseElements n inp = Inr (vs, rest) \<Longrightarrow> length rest < length inp"
  "parseMembers n inp = Inr (ms, rest) \<Longrightarrow> length rest < length inp"
proof (induction n inp and n inp and n inp arbitrary: v rest and vs rest and ms rest
    rule: parseValue_parseElements_parseMembers.induct)
  case (1 inp)
  then show ?case by simp
next
  case (2 n)
  then show ?case by simp
next
  case (3 n c cs)
  show ?case
  proof (cases "c = ch CHR ''[''")
    case True
    with 3(3) obtain d ds where s: "skipWhitespace cs = d # ds"
      by (auto split: list.splits)
    then have l: "length ds < length cs" by (rule skipWhitespace_Cons)
    show ?thesis
    proof (cases "d = ch CHR '']''")
      case close: True
      with True s 3(3) have "rest = ds" by simp
      with l show ?thesis by simp
    next
      case False
      with True s 3(3) obtain ws where "parseElements n (d # ds) = Inr (ws, rest)"
        by (auto split: sum.splits)
      with True s False have "length rest < length (d # ds)"
        by (intro "3.IH"(1)) auto
      with l show ?thesis by simp
    qed
  next
    case array: False
    show ?thesis
    proof (cases "c = ch CHR ''{''")
      case True
      with array 3(3) obtain d ds where s: "skipWhitespace cs = d # ds"
        by (auto split: list.splits)
      then have l: "length ds < length cs" by (rule skipWhitespace_Cons)
      show ?thesis
      proof (cases "d = ch CHR ''}''")
        case close: True
        with array True s 3(3) have "rest = ds" by simp
        with l show ?thesis by simp
      next
        case False
        with array True s 3(3) obtain ws where "parseMembers n (d # ds) = Inr (ws, rest)"
          by (auto split: sum.splits)
        with array True s False have "length rest < length (d # ds)"
          by (intro "3.IH"(2)) auto
        with l show ?thesis by simp
      qed
    next
      case object: False
      show ?thesis
      proof (cases "c = ch CHR 0x22")
        case True
        with array object 3(3) obtain s where "parseStringBody cs = Inr (s, rest)"
          by (auto split: sum.splits)
        then have "length rest < length cs" by (rule parseStringBody_shorter)
        then show ?thesis by simp
      next
        case False
        with array object 3(3) consider
            "startsWith (c # cs) (js ''true'')" "rest = drop (length (js ''true'')) (c # cs)"
          | "startsWith (c # cs) (js ''false'')" "rest = drop (length (js ''false'')) (c # cs)"
          | "startsWith (c # cs) (js ''null'')" "rest = drop (length (js ''null'')) (c # cs)"
          | "parseNumber (c # cs) = Inr (v, rest)"
          by (auto simp only: parseValue.simps literal_lengths if_False split: if_splits)
        then show ?thesis
        proof cases
          case 1
          then show ?thesis using startsWith_drop literal_lengths(4) by blast
        next
          case 2
          then show ?thesis using startsWith_drop literal_lengths(5) by blast
        next
          case 3
          then show ?thesis using startsWith_drop literal_lengths(6) by blast
        next
          case 4
          then show ?thesis by (rule parseNumber_shorter)
        qed
      qed
    qed
  qed
next
  case (4 inp)
  then show ?case by simp
next
  case (5 n inp)
  from 5(3) obtain v r1 where v: "parseValue (Suc n) inp = Inr (v, r1)"
    by (auto simp del: parseValue.simps split: sum.splits)
  then have l1: "length r1 < length inp" by (rule "5.IH"(1))
  from v 5(3) obtain c cs where s: "skipWhitespace r1 = c # cs"
    by (auto simp del: parseValue.simps split: list.splits)
  then have l2: "length cs < length r1" by (rule skipWhitespace_Cons)
  show ?case
  proof (cases "c = ch CHR '',''")
    case True
    with v s 5(3) obtain ws where "parseElements n (skipWhitespace cs) = Inr (ws, rest)"
      by (auto simp del: parseValue.simps split: sum.splits)
    with v s True have "length rest < length (skipWhitespace cs)"
      by (intro "5.IH"(2)) auto
    with l1 l2 skipWhitespace_length [of cs] show ?thesis by simp
  next
    case False
    with v s 5(3) have "rest = cs"
      by (auto simp del: parseValue.simps split: if_splits)
    with l1 l2 show ?thesis by simp
  qed
next
  case (6 inp)
  then show ?case by simp
next
  case (7 n)
  then show ?case by simp
next
  case (8 n q qs)
  from 8(3) have q: "q = ch CHR 0x22"
    by (auto simp del: parseValue.simps split: if_splits)
  with 8(3) obtain k r0 where k: "parseStringBody qs = Inr (k, r0)"
    by (auto simp del: parseValue.simps split: sum.splits)
  then have l0: "length r0 < length qs" by (rule parseStringBody_shorter)
  from q k 8(3) obtain c cs where s0: "skipWhitespace r0 = c # cs"
    by (auto simp del: parseValue.simps split: list.splits)
  then have l0': "length cs < length r0" by (rule skipWhitespace_Cons)
  from q k s0 8(3) have c: "c = ch CHR '':''"
    by (auto simp del: parseValue.simps split: if_splits)
  with q k s0 8(3) obtain v r1 where v: "parseValue (Suc n) (skipWhitespace cs) = Inr (v, r1)"
    by (auto simp del: parseValue.simps split: sum.splits)
  with q k s0 c have l1: "length r1 < length (skipWhitespace cs)"
    by (intro "8.IH"(1)) auto
  from q k s0 c v 8(3) obtain d ds where s1: "skipWhitespace r1 = d # ds"
    by (auto simp del: parseValue.simps split: list.splits)
  then have l2: "length ds < length r1" by (rule skipWhitespace_Cons)
  show ?case
  proof (cases "d = ch CHR '',''")
    case True
    with q k s0 c v s1 8(3) obtain ws where "parseMembers n (skipWhitespace ds) = Inr (ws, rest)"
      by (auto simp del: parseValue.simps split: sum.splits)
    with q k s0 c v s1 True have "length rest < length (skipWhitespace ds)"
      by (intro "8.IH"(2)) auto
    with l0 l0' l1 l2 skipWhitespace_length [of cs] skipWhitespace_length [of ds]
    show ?thesis by simp
  next
    case False
    with q k s0 c v s1 8(3) have "rest = ds"
      by (auto simp del: parseValue.simps split: if_splits)
    with l0 l0' l1 l2 skipWhitespace_length [of cs] show ?thesis by simp
  qed
qed

lemma fuel_step:
  "length inp < n \<Longrightarrow> parseValue (Suc n) inp = parseValue n inp"
  "length inp < n \<Longrightarrow> parseElements (Suc n) inp = parseElements n inp"
  "length inp < n \<Longrightarrow> parseMembers (Suc n) inp = parseMembers n inp"
proof (induction n inp and n inp and n inp
    rule: parseValue_parseElements_parseMembers.induct)
  case (1 inp)
  then show ?case by simp
next
  case (2 n)
  show ?case by simp
next
  case (3 n c cs)
  have l: "\<And>d ds. skipWhitespace cs = d # ds \<Longrightarrow> length (d # ds) < n"
    using 3(3) skipWhitespace_length [of cs] by simp
  have e: "\<And>d ds. c = ch CHR ''['' \<Longrightarrow> skipWhitespace cs = d # ds \<Longrightarrow> d \<noteq> ch CHR '']'' \<Longrightarrow>
             parseElements (Suc n) (d # ds) = parseElements n (d # ds)"
    using "3.IH"(1) l by blast
  have m: "\<And>d ds. c \<noteq> ch CHR ''['' \<Longrightarrow> c = ch CHR ''{'' \<Longrightarrow> skipWhitespace cs = d # ds \<Longrightarrow>
             d \<noteq> ch CHR ''}'' \<Longrightarrow>
             parseMembers (Suc n) (d # ds) = parseMembers n (d # ds)"
    using "3.IH"(2) l by blast
  show ?case
    by (auto simp: e m split: list.splits simp del: parseElements.simps parseMembers.simps)
next
  case (4 inp)
  then show ?case by simp
next
  case (5 n inp)
  have v: "parseValue (Suc (Suc n)) inp = parseValue (Suc n) inp"
    using 5(3) by (rule "5.IH"(1))
  have e: "\<And>v rest c cs. parseValue (Suc n) inp = Inr (v, rest) \<Longrightarrow> skipWhitespace rest = c # cs \<Longrightarrow>
             c = ch CHR '','' \<Longrightarrow>
             parseElements (Suc n) (skipWhitespace cs) = parseElements n (skipWhitespace cs)"
  proof -
    fix v rest c cs
    assume a: "parseValue (Suc n) inp = Inr (v, rest)" "skipWhitespace rest = c # cs" "c = ch CHR '',''"
    from a(1) have "length rest < length inp" by (rule parse_shorter(1))
    moreover from a(2) have "length cs < length rest" by (rule skipWhitespace_Cons)
    ultimately have "length (skipWhitespace cs) < n"
      using 5(3) skipWhitespace_length [of cs] by simp
    with a show "parseElements (Suc n) (skipWhitespace cs) = parseElements n (skipWhitespace cs)"
      by (intro "5.IH"(2)) auto
  qed
  have "parseElements (Suc (Suc n)) inp =
        (case parseValue (Suc n) inp of
           Inl e \<Rightarrow> Inl e
         | Inr (v, rest) \<Rightarrow>
             (case skipWhitespace rest of
                [] \<Rightarrow> Inl SyntaxError
              | c # cs \<Rightarrow>
                  if c = ch CHR '','' then
                    (case parseElements (Suc n) (skipWhitespace cs) of
                       Inl e \<Rightarrow> Inl e
                     | Inr (vs, rest') \<Rightarrow> Inr (v # vs, rest'))
                  else if c = ch CHR '']'' then Inr ([v], cs)
                  else Inl SyntaxError))"
    by (subst parseElements.simps) (simp only: v)
  also have "\<dots> = parseElements (Suc n) inp"
    by (subst (2) parseElements.simps)
       (auto simp: e split: sum.splits list.splits simp del: parseValue.simps parseElements.simps)
  finally show ?case .
next
  case (6 inp)
  then show ?case by simp
next
  case (7 n)
  show ?case by simp
next
  case (8 n q qs)
  have v: "\<And>k r0 c cs. q = ch CHR 0x22 \<Longrightarrow> parseStringBody qs = Inr (k, r0) \<Longrightarrow>
             skipWhitespace r0 = c # cs \<Longrightarrow> c = ch CHR '':'' \<Longrightarrow>
             parseValue (Suc (Suc n)) (skipWhitespace cs) = parseValue (Suc n) (skipWhitespace cs)"
  proof -
    fix k r0 c cs
    assume a: "q = ch CHR 0x22" "parseStringBody qs = Inr (k, r0)"
      "skipWhitespace r0 = c # cs" "c = ch CHR '':''"
    from a(2) have "length r0 < length qs" by (rule parseStringBody_shorter)
    moreover from a(3) have "length cs < length r0" by (rule skipWhitespace_Cons)
    ultimately have "length (skipWhitespace cs) < Suc n"
      using 8(3) skipWhitespace_length [of cs] by simp
    with a show "parseValue (Suc (Suc n)) (skipWhitespace cs) = parseValue (Suc n) (skipWhitespace cs)"
      by (intro "8.IH"(1)) auto
  qed
  have m: "\<And>k r0 c cs v r1 d ds. q = ch CHR 0x22 \<Longrightarrow> parseStringBody qs = Inr (k, r0) \<Longrightarrow>
             skipWhitespace r0 = c # cs \<Longrightarrow> c = ch CHR '':'' \<Longrightarrow>
             parseValue (Suc n) (skipWhitespace cs) = Inr (v, r1) \<Longrightarrow>
             skipWhitespace r1 = d # ds \<Longrightarrow> d = ch CHR '','' \<Longrightarrow>
             parseMembers (Suc n) (skipWhitespace ds) = parseMembers n (skipWhitespace ds)"
  proof -
    fix k r0 c cs v r1 d ds
    assume a: "q = ch CHR 0x22" "parseStringBody qs = Inr (k, r0)"
      "skipWhitespace r0 = c # cs" "c = ch CHR '':''"
      "parseValue (Suc n) (skipWhitespace cs) = Inr (v, r1)"
      "skipWhitespace r1 = d # ds" "d = ch CHR '',''"
    from a(2) have "length r0 < length qs" by (rule parseStringBody_shorter)
    moreover from a(3) have "length cs < length r0" by (rule skipWhitespace_Cons)
    moreover from a(5) have "length r1 < length (skipWhitespace cs)" by (rule parse_shorter(1))
    moreover from a(6) have "length ds < length r1" by (rule skipWhitespace_Cons)
    ultimately have "length (skipWhitespace ds) < n"
      using 8(3) skipWhitespace_length [of cs] skipWhitespace_length [of ds] by simp
    with a show "parseMembers (Suc n) (skipWhitespace ds) = parseMembers n (skipWhitespace ds)"
      by (intro "8.IH"(2)) auto
  qed
  have "parseMembers (Suc (Suc n)) (q # qs) =
     (if q = ch CHR 0x22 then
        (case parseStringBody qs of
           Inl e \<Rightarrow> Inl e
         | Inr (k, rest) \<Rightarrow>
             (case skipWhitespace rest of
                [] \<Rightarrow> Inl SyntaxError
              | c # cs \<Rightarrow>
                  if c = ch CHR '':'' then
                    (case parseValue (Suc n) (skipWhitespace cs) of
                       Inl e \<Rightarrow> Inl e
                     | Inr (v, rest') \<Rightarrow>
                         (case skipWhitespace rest' of
                            [] \<Rightarrow> Inl SyntaxError
                          | d # ds \<Rightarrow>
                              if d = ch CHR '','' then
                                (case parseMembers (Suc n) (skipWhitespace ds) of
                                   Inl e \<Rightarrow> Inl e
                                 | Inr (ms, rest'') \<Rightarrow> Inr ((k, v) # ms, rest''))
                              else if d = ch CHR ''}'' then Inr ([(k, v)], ds)
                              else Inl SyntaxError))
                  else Inl SyntaxError))
      else Inl SyntaxError)"
    by (subst parseMembers.simps(3))
       (auto simp: v split: sum.splits list.splits simp del: parseValue.simps parseMembers.simps)
  also have "\<dots> = parseMembers (Suc n) (q # qs)"
    by (subst parseMembers.simps(3))
       (auto simp: m split: sum.splits list.splits simp del: parseValue.simps parseMembers.simps)
  finally show ?case .
qed

lemma fuel_enough:
  "length inp < n \<Longrightarrow> parseValue (n + k) inp = parseValue n inp"
  by (induction k) (simp_all add: fuel_step(1) del: parseValue.simps)

lemma JSON_parse_fuel:
  assumes "length t < m"
  shows "parseValue m (skipWhitespace t) = parseValue (Suc (length t)) (skipWhitespace t)"
proof -
  from assms obtain k where m: "m = Suc (length t) + k"
    by (metis Suc_leI le_Suc_ex)
  have "length (skipWhitespace t) < Suc (length t)"
    using skipWhitespace_length [of t] by simp
  then show ?thesis
    unfolding m by (rule fuel_enough)
qed

section \<open>Reading back what \<open>JSON.stringify\<close> writes\<close>

subsection \<open>Strings\<close>

lemma nibbles:
  assumes "n < 65536"
  shows "n div 4096 mod 16 * 4096 + n div 256 mod 16 * 256 + n div 16 mod 16 * 16 + n mod 16 = (n::nat)"
proof -
  define a where "a = n div 16"
  define b where "b = a div 16"
  define c where "c = b div 16"
  define x where "x = n mod 16"
  define y where "y = a mod 16"
  define z where "z = b mod 16"
  have d: "n div 16 = a" "n div 256 = b" "n div 4096 = c"
    by (simp_all add: a_def b_def c_def div_mult2_eq [symmetric])
  have "n div 4096 < 16"
    using assms by (simp add: less_mult_imp_div_less)
  then have c: "c mod 16 = c" by (simp add: d)
  have e: "n = a * 16 + x" "a = b * 16 + y" "b = c * 16 + z"
    by (simp_all add: a_def b_def c_def x_def y_def z_def)
  have "c * 4096 + z * 256 + y * 16 + x = n"
    using e by linarith
  then show ?thesis
    by (simp only: d c x_def [symmetric] y_def [symmetric] z_def [symmetric])
qed

lemma below_16: "d < 16 \<Longrightarrow>
  d = 0 \<or> d = 1 \<or> d = 2 \<or> d = 3 \<or> d = 4 \<or> d = 5 \<or> d = 6 \<or> d = 7 \<or>
  d = 8 \<or> d = 9 \<or> d = 10 \<or> d = 11 \<or> d = 12 \<or> d = 13 \<or> d = 14 \<or> d = (15::nat)"
  by arith

lemma hexValue_hexDigit: "d < 16 \<Longrightarrow> hexValue (hexDigit d) = Some d"
  by (drule below_16, elim disjE) (simp_all add: hexValue_def hexDigit_def)

lemma hex4_UnicodeEscape:
  "hex4 (hexDigit (unat c div 4096 mod 16)) (hexDigit (unat c div 256 mod 16))
        (hexDigit (unat c div 16 mod 16)) (hexDigit (unat c mod 16)) = Some (c :: code_unit)"
proof -
  have "unat c < 65536" using unsigned_less [of c, where ?'a = nat] by simp
  then have n: "unat c div 4096 mod 16 * 4096 + unat c div 256 mod 16 * 256 +
                unat c div 16 mod 16 * 16 + unat c mod 16 = unat c"
    by (rule nibbles)
  have h: "\<And>k. hexValue (hexDigit (k mod 16)) = Some (k mod 16)"
    by (simp add: hexValue_hexDigit)
  have "hex4 (hexDigit (unat c div 4096 mod 16)) (hexDigit (unat c div 256 mod 16))
        (hexDigit (unat c div 16 mod 16)) (hexDigit (unat c mod 16)) =
        Some (of_nat (unat c div 4096 mod 16 * 4096 + unat c div 256 mod 16 * 256 +
                unat c div 16 mod 16 * 16 + unat c mod 16))"
    by (simp only: hex4_def h prod.case option.case)
  also have "\<dots> = Some c"
    by (simp only: n) simp
  finally show ?thesis .
qed

lemma parse_UnicodeEscape:
  "parseStringBody (UnicodeEscape c @ r) = consUnit c (parseStringBody r)"
  by (simp add: UnicodeEscape_def ch_def hex4_UnicodeEscape)

lemma parse_raw:
  "c \<noteq> 0x22 \<Longrightarrow> c \<noteq> 0x5C \<Longrightarrow> \<not> c < 0x20 \<Longrightarrow>
   parseStringBody (c # r) = consUnit c (parseStringBody r)"
  by (simp add: ch_def)

lemma parse_escapeUnit:
  "parseStringBody (escapeUnit c @ r) = consUnit c (parseStringBody r)"
  by (simp add: escapeUnit_def parse_UnicodeEscape) (simp add: ch_def unescape_def)

lemma surrogate_raw:
  "isLeadingSurrogate c \<or> isTrailingSurrogate c \<Longrightarrow> c \<noteq> 0x22 \<and> c \<noteq> 0x5C \<and> \<not> c < 0x20"
  by (auto simp: isLeadingSurrogate_def isTrailingSurrogate_def word_le_nat_alt word_less_nat_alt)

lemma parse_quoteBody:
  "parseStringBody (quoteBody s @ ch CHR 0x22 # r) = Inr (s, r)"
proof (induction s rule: quoteBody.induct)
  case 1
  show ?case by simp
next
  case (2 c)
  have "parseStringBody (ch CHR 0x22 # r) = Inr ([], r)" by simp
  then show ?case
    by (simp add: parse_UnicodeEscape parse_escapeUnit consUnit_def del: parseStringBody.simps)
next
  case (3 c d cs)
  show ?case
  proof (cases "isLeadingSurrogate c \<and> isTrailingSurrogate d")
    case True
    then have c: "c \<noteq> 0x22" "c \<noteq> 0x5C" "\<not> c < 0x20" and d: "d \<noteq> 0x22" "d \<noteq> 0x5C" "\<not> d < 0x20"
      using surrogate_raw [of c] surrogate_raw [of d] by blast+
    have "parseStringBody (c # d # quoteBody cs @ ch CHR 0x22 # r) =
          consUnit c (consUnit d (parseStringBody (quoteBody cs @ ch CHR 0x22 # r)))"
      by (simp only: parse_raw [OF c] parse_raw [OF d])
    with True 3 show ?thesis by (simp add: consUnit_def del: parseStringBody.simps)
  next
    case False
    with 3 show ?thesis
      by (auto simp: parse_UnicodeEscape parse_escapeUnit consUnit_def simp del: parseStringBody.simps)
  qed
qed

lemma parse_QuoteJSONString:
  "parseStringBody (tl (QuoteJSONString s) @ r) = Inr (s, r)"
  by (simp add: QuoteJSONString_def parse_quoteBody)

subsection \<open>Numbers\<close>

lemma unat_digit: "d < 10 \<Longrightarrow> unat (digit d) = 48 + d"
  by (simp only: digit_def unat_of_nat) simp

lemma isDigit_unat: "isDigit c \<longleftrightarrow> 48 \<le> unat c \<and> unat c \<le> 57"
  by (simp add: isDigit_def word_le_nat_alt)

lemma isDigit_digit: "d < 10 \<Longrightarrow> isDigit (digit d)"
  by (simp add: isDigit_unat unat_digit)

lemma digit_zero: "digit 0 = ch CHR ''0''"
  by (simp add: digit_def ch_def)

lemma digit_not_zero: "0 < d \<Longrightarrow> d < 10 \<Longrightarrow> digit d \<noteq> ch CHR ''0''"
proof
  assume d: "0 < d" "d < 10" and e: "digit d = ch CHR ''0''"
  from e have "unat (digit d) = unat (ch CHR ''0'')" by simp
  with d show False by (simp add: unat_digit ch_def)
qed

lemma parseDigits_digit:
  "d < 10 \<Longrightarrow> parseDigits acc (digit d # rest) = parseDigits (acc * 10 + d) rest"
  by (simp add: isDigit_digit unat_digit)

lemma parseDigits_digits:
  "parseDigits acc (digits n @ rest) = parseDigits (acc * 10 ^ length (digits n) + n) rest"
proof (induction n arbitrary: acc rest rule: digits.induct)
  case (1 n)
  show ?case
  proof (cases "n < 10")
    case True
    then show ?thesis
      by (subst (1 2) digits.simps) (simp add: parseDigits_digit del: parseDigits.simps)
  next
    case False
    have m: "n mod 10 < 10" by simp
    have l: "length (digits n) = Suc (length (digits (n div 10)))"
      using False by (subst digits.simps) simp
    have "parseDigits acc (digits n @ rest) =
          parseDigits acc (digits (n div 10) @ digit (n mod 10) # rest)"
      using False by (subst digits.simps) simp
    also have "\<dots> = parseDigits (acc * 10 ^ length (digits (n div 10)) + n div 10)
                        (digit (n mod 10) # rest)"
      using False by (rule "1.IH")
    also have "\<dots> = parseDigits ((acc * 10 ^ length (digits (n div 10)) + n div 10) * 10 + n mod 10) rest"
      using m by (rule parseDigits_digit)
    also have "(acc * 10 ^ length (digits (n div 10)) + n div 10) * 10 + n mod 10 =
               acc * 10 ^ length (digits n) + n"
      by (simp add: l algebra_simps)
    finally show ?thesis .
  qed
qed

lemma parseDigits_stop: "delimited rest \<Longrightarrow> parseDigits acc rest = (acc, rest)"
  by (cases rest) (simp_all add: delimited_def)

lemma digits_head: "0 < n \<Longrightarrow> \<exists>k cs. digits n = digit k # cs \<and> 0 < k \<and> k < 10"
proof (induction n rule: digits.induct)
  case (1 n)
  show ?case
  proof (cases "n < 10")
    case True
    with 1(2) show ?thesis by (subst digits.simps) auto
  next
    case False
    then have "0 < n div 10" by simp
    with False 1(1) obtain k cs where "digits (n div 10) = digit k # cs" "0 < k" "k < 10"
      by blast
    with False show ?thesis by (subst digits.simps) auto
  qed
qed

lemma parseNatural_digits:
  assumes "delimited rest"
  shows "parseNatural (digits n @ rest) = Inr (n, rest)"
proof (cases "n = 0")
  case True
  then show ?thesis
    by (subst digits.simps) (simp add: parseNatural_def digit_zero)
next
  case False
  then obtain k cs where d: "digits n = digit k # cs" "0 < k" "k < 10"
    using digits_head [of n] by auto
  have "parseNatural (digits n @ rest) = Inr (parseDigits 0 (digits n @ rest))"
    using d by (simp add: parseNatural_def digit_not_zero isDigit_digit del: parseDigits.simps)
  also have "parseDigits 0 (digits n @ rest) = (n, rest)"
    using assms by (simp add: parseDigits_digits parseDigits_stop)
  finally show ?thesis .
qed

lemma delimited_not_beyond: "delimited rest \<Longrightarrow> \<not> beyondInteger rest"
  by (cases rest) (simp_all add: delimited_def beyondInteger_def)

lemma digits_first: "\<exists>c cs. digits n = c # cs \<and> isDigit c"
proof (cases "n = 0")
  case True
  then show ?thesis by (subst digits.simps) (simp add: isDigit_digit)
next
  case False
  then obtain k cs where "digits n = digit k # cs" "0 < k" "k < 10"
    using digits_head [of n] by auto
  then show ?thesis by (simp add: isDigit_digit)
qed

lemma isDigit_not_minus: "isDigit c \<Longrightarrow> c \<noteq> ch CHR ''-''"
  by (auto simp: isDigit_unat ch_def)

lemma parseNumber_toString:
  assumes "delimited rest"
  shows "parseNumber (Number_toString i @ rest) = Inr (JNum i, rest)"
proof (cases "i < 0")
  case True
  then show ?thesis
    using assms
    by (simp add: parseNumber_def Number_toString_def parseNatural_digits delimited_not_beyond)
next
  case False
  obtain c cs where d: "digits (nat i) = c # cs" "isDigit c"
    using digits_first by blast
  have "parseNumber (digits (nat i) @ rest) =
        (case parseNatural (digits (nat i) @ rest) of
           Inl e \<Rightarrow> Inl e
         | Inr (n, rest') \<Rightarrow>
             if beyondInteger rest' then Inl Unmodelled else Inr (JNum (int n), rest'))"
    using d isDigit_not_minus [of c] by (simp add: parseNumber_def)
  with False assms show ?thesis
    by (simp add: Number_toString_def parseNatural_digits delimited_not_beyond)
qed

lemma Number_toString_first:
  "\<exists>c cs. Number_toString i = c # cs \<and> (c = ch CHR ''-'' \<or> isDigit c)"
  using digits_first [of "nat i"] by (auto simp: Number_toString_def)

lemma parseValue_number:
  assumes "delimited rest"
  shows "parseValue (Suc n) (Number_toString i @ rest) = Inr (JNum i, rest)"
proof -
  obtain c cs where d: "Number_toString i = c # cs" "c = ch CHR ''-'' \<or> isDigit c"
    using Number_toString_first by blast
  from d(2) have "c \<noteq> ch CHR ''['' \<and> c \<noteq> ch CHR ''{'' \<and> c \<noteq> ch CHR 0x22 \<and>
                  c \<noteq> ch CHR ''t'' \<and> c \<noteq> ch CHR ''f'' \<and> c \<noteq> ch CHR ''n''"
    by (auto simp: isDigit_unat ch_def)
  then have "parseValue (Suc n) (Number_toString i @ rest) = parseNumber (Number_toString i @ rest)"
    unfolding d(1) by (simp add: js_def)
  also have "\<dots> = Inr (JNum i, rest)"
    using assms by (rule parseNumber_toString)
  finally show ?thesis .
qed

subsection \<open>Values\<close>

lemma stringify_first:
  "\<exists>c cs. JSON_stringify v = c # cs \<and> \<not> isWhitespace c \<and> c \<noteq> ch CHR '']''"
proof (cases v)
  case (JNum i)
  obtain c cs where "Number_toString i = c # cs" "c = ch CHR ''-'' \<or> isDigit c"
    using Number_toString_first by blast
  with JNum show ?thesis
    by (auto simp: isWhitespace_def isDigit_unat ch_def)
qed (auto simp: isWhitespace_def ch_def js_def QuoteJSONString_def)

lemma skipWhitespace_stringify:
  "skipWhitespace (JSON_stringify v @ r) = JSON_stringify v @ r"
proof -
  obtain c cs where "JSON_stringify v = c # cs" "\<not> isWhitespace c"
    using stringify_first by blast
  then show ?thesis by simp
qed

lemma stringify_elements_first:
  assumes "vs \<noteq> []"
  shows "\<exists>c cs. stringify_elements vs @ r = c # cs \<and> \<not> isWhitespace c \<and> c \<noteq> ch CHR '']''"
proof -
  obtain c cs where c: "JSON_stringify (hd vs) = c # cs" "\<not> isWhitespace c" "c \<noteq> ch CHR '']''"
    using stringify_first by blast
  from assms obtain v ws where "vs = v # ws" by (cases vs) auto
  with c show ?thesis by (cases ws) auto
qed

lemma stringify_members_first:
  assumes "ms \<noteq> []"
  shows "\<exists>cs. stringify_members ms @ r = ch CHR 0x22 # cs"
proof -
  from assms obtain k v ws where "ms = (k, v) # ws" by (cases ms) auto
  then show ?thesis by (cases ws) (auto simp: QuoteJSONString_def)
qed

lemma delimited_punctuation:
  "delimited (ch CHR '','' # r)" "delimited (ch CHR '']'' # r)" "delimited (ch CHR ''}'' # r)"
  by (simp_all add: delimited_def isDigit_unat ch_def)

lemma skip_punctuation:
  "skipWhitespace (ch CHR '','' # r) = ch CHR '','' # r"
  "skipWhitespace (ch CHR '']'' # r) = ch CHR '']'' # r"
  "skipWhitespace (ch CHR ''}'' # r) = ch CHR ''}'' # r"
  "skipWhitespace (ch CHR '':'' # r) = ch CHR '':'' # r"
  "skipWhitespace (ch CHR 0x22 # r) = ch CHR 0x22 # r"
  by (simp_all add: isWhitespace_def ch_def)

lemma parseValue_null: "parseValue (Suc n) (js ''null'' @ r) = Inr (JNull, r)"
  by (simp add: js_def ch_def)

lemma parseValue_true: "parseValue (Suc n) (js ''true'' @ r) = Inr (JBool True, r)"
  by (simp add: js_def ch_def)

lemma parseValue_false: "parseValue (Suc n) (js ''false'' @ r) = Inr (JBool False, r)"
  by (simp add: js_def ch_def)

lemma parseValue_string:
  "parseValue (Suc n) (QuoteJSONString s @ r) = Inr (JStr s, r)"
proof -
  have "parseValue (Suc n) (ch CHR 0x22 # quoteBody s @ ch CHR 0x22 # r) =
        (case parseStringBody (quoteBody s @ ch CHR 0x22 # r) of
           Inl e \<Rightarrow> Inl e
         | Inr (s, rest) \<Rightarrow> Inr (JStr s, rest))"
    by (simp add: ch_def)
  then show ?thesis by (simp add: QuoteJSONString_def parse_quoteBody)
qed

lemma parseValue_empty_array: "parseValue (Suc n) (ch CHR ''['' # ch CHR '']'' # r) = Inr (JArr [], r)"
  by (simp add: ch_def isWhitespace_def)

lemma parseValue_empty_object: "parseValue (Suc n) (ch CHR ''{'' # ch CHR ''}'' # r) = Inr (JObj [], r)"
  by (simp add: ch_def isWhitespace_def)

lemma parseValue_array:
  assumes "vs \<noteq> []"
  shows "parseValue (Suc n) (ch CHR ''['' # stringify_elements vs @ ch CHR '']'' # r) =
         (case parseElements n (stringify_elements vs @ ch CHR '']'' # r) of
            Inl e \<Rightarrow> Inl e
          | Inr (ws, rest) \<Rightarrow> Inr (JArr ws, rest))"
proof -
  obtain c cs where c: "stringify_elements vs @ ch CHR '']'' # r = c # cs"
    "\<not> isWhitespace c" "c \<noteq> ch CHR '']''"
    using stringify_elements_first [OF assms] by blast
  show ?thesis
    unfolding c(1) using c(2,3) by simp
qed

lemma parseValue_object:
  assumes "ms \<noteq> []"
  shows "parseValue (Suc n) (ch CHR ''{'' # stringify_members ms @ ch CHR ''}'' # r) =
         (case parseMembers n (stringify_members ms @ ch CHR ''}'' # r) of
            Inl e \<Rightarrow> Inl e
          | Inr (ws, rest) \<Rightarrow> Inr (JObj ws, rest))"
proof -
  obtain cs where c: "stringify_members ms @ ch CHR ''}'' # r = ch CHR 0x22 # cs"
    using stringify_members_first [OF assms] by blast
  have "\<not> isWhitespace (ch CHR 0x22)" "ch CHR 0x22 \<noteq> ch CHR ''}''" "ch CHR ''{'' \<noteq> ch CHR ''[''"
    by (simp_all add: isWhitespace_def ch_def)
  then show ?thesis
    unfolding c by simp
qed

lemma skipWhitespace_elements:
  "vs \<noteq> [] \<Longrightarrow> skipWhitespace (stringify_elements vs @ r) = stringify_elements vs @ r"
  using stringify_elements_first [of vs r] by auto

lemma skipWhitespace_members:
  "ms \<noteq> [] \<Longrightarrow> skipWhitespace (stringify_members ms @ r) = stringify_members ms @ r"
  using stringify_members_first [of ms r] by (auto simp: isWhitespace_def ch_def)

lemma parseElements_last:
  assumes "parseValue (Suc n) (t @ ch CHR '']'' # r) = Inr (v, ch CHR '']'' # r)"
  shows "parseElements (Suc n) (t @ ch CHR '']'' # r) = Inr ([v], r)"
proof -
  have "ch CHR '']'' \<noteq> ch CHR '',''" by (simp add: ch_def)
  then show ?thesis
    by (simp add: assms skip_punctuation del: skipWhitespace.simps parseValue.simps)
qed

lemma parseElements_more:
  assumes "parseValue (Suc n) (t @ ch CHR '','' # u) = Inr (v, ch CHR '','' # u)"
    and "skipWhitespace u = u"
    and "parseElements n u = Inr (ws, r)"
  shows "parseElements (Suc n) (t @ ch CHR '','' # u) = Inr (v # ws, r)"
  by (simp add: assms skip_punctuation del: skipWhitespace.simps parseValue.simps)

lemma parseMembers_step:
  assumes "parseValue (Suc n) (t @ u) = Inr (v, u)"
    and "skipWhitespace (t @ u) = t @ u"
  shows "parseMembers (Suc n) (QuoteJSONString k @ ch CHR '':'' # t @ u) =
         (case skipWhitespace u of
            [] \<Rightarrow> Inl SyntaxError
          | d # ds \<Rightarrow>
              if d = ch CHR '','' then
                (case parseMembers n (skipWhitespace ds) of
                   Inl e \<Rightarrow> Inl e
                 | Inr (ms, rest'') \<Rightarrow> Inr ((k, v) # ms, rest''))
              else if d = ch CHR ''}'' then Inr ([(k, v)], ds)
              else Inl SyntaxError)"
proof -
  have "parseStringBody (quoteBody k @ ch CHR 0x22 # ch CHR '':'' # t @ u) =
        Inr (k, ch CHR '':'' # t @ u)"
    by (rule parse_quoteBody)
  then show ?thesis
    by (simp add: QuoteJSONString_def assms skip_punctuation del: skipWhitespace.simps parseValue.simps)
qed

lemma parseMembers_last:
  assumes "parseValue (Suc n) (t @ ch CHR ''}'' # r) = Inr (v, ch CHR ''}'' # r)"
    and "skipWhitespace (t @ ch CHR ''}'' # r) = t @ ch CHR ''}'' # r"
  shows "parseMembers (Suc n) (QuoteJSONString k @ ch CHR '':'' # t @ ch CHR ''}'' # r) =
         Inr ([(k, v)], r)"
proof -
  have "ch CHR ''}'' \<noteq> ch CHR '',''" by (simp add: ch_def)
  then show ?thesis
    by (simp add: parseMembers_step [OF assms] skip_punctuation del: skipWhitespace.simps parseMembers.simps parseValue.simps)
qed

lemma parseMembers_more:
  assumes "parseValue (Suc n) (t @ ch CHR '','' # u) = Inr (v, ch CHR '','' # u)"
    and "skipWhitespace (t @ ch CHR '','' # u) = t @ ch CHR '','' # u"
    and "skipWhitespace u = u"
    and "parseMembers n u = Inr (ws, r)"
  shows "parseMembers (Suc n) (QuoteJSONString k @ ch CHR '':'' # t @ ch CHR '','' # u) =
         Inr ((k, v) # ws, r)"
  by (simp add: parseMembers_step [OF assms(1,2)] assms(3,4) skip_punctuation
      del: skipWhitespace.simps parseMembers.simps parseValue.simps)

lemma stringify_nonempty: "0 < length (JSON_stringify v)"
  using stringify_first [of v] by auto

lemma parse_stringify:
  "length (JSON_stringify v) \<le> n \<Longrightarrow> delimited rest \<Longrightarrow>
     parseValue n (JSON_stringify v @ rest) = Inr (v, rest)"
  "vs \<noteq> [] \<Longrightarrow> length (stringify_elements vs) < n \<Longrightarrow>
     parseElements n (stringify_elements vs @ ch CHR '']'' # rest) = Inr (vs, rest)"
  "ms \<noteq> [] \<Longrightarrow> length (stringify_members ms) < n \<Longrightarrow>
     parseMembers n (stringify_members ms @ ch CHR ''}'' # rest) = Inr (ms, rest)"
proof (induction v and vs and ms arbitrary: n rest and n rest and n rest
    rule: JSON_stringify_stringify_elements_stringify_members.induct)
  case 1
  then obtain m where "n = Suc m" by (cases n) (auto simp: js_def)
  then show ?case by (simp only: JSON_stringify.simps parseValue_null)
next
  case (2 b)
  then obtain m where "n = Suc m" by (cases n) (auto simp: js_def split: if_splits)
  then show ?case by (cases b) (simp_all only: JSON_stringify.simps parseValue_true parseValue_false if_True if_False)
next
  case (3 i)
  from 3(1) stringify_nonempty [of "JNum i"] obtain m where "n = Suc m" by (cases n) auto
  with 3(2) show ?case by (simp only: JSON_stringify.simps parseValue_number)
next
  case (4 s)
  from 4(1) stringify_nonempty [of "JStr s"] obtain m where "n = Suc m" by (cases n) auto
  then show ?case by (simp only: JSON_stringify.simps parseValue_string)
next
  case (5 vs)
  from 5(2) obtain m where n: "n = Suc m" by (cases n) auto
  show ?case
  proof (cases "vs = []")
    case True
    with n show ?thesis by (simp add: parseValue_empty_array del: parseValue.simps)
  next
    case False
    from 5(2) n have "length (stringify_elements vs) < m" by simp
    with False have "parseElements m (stringify_elements vs @ ch CHR '']'' # rest) = Inr (vs, rest)"
      by (rule "5.IH")
    with False n show ?thesis
      by (simp add: parseValue_array del: parseValue.simps)
  qed
next
  case (6 ms)
  from 6(2) obtain m where n: "n = Suc m" by (cases n) auto
  show ?case
  proof (cases "ms = []")
    case True
    with n show ?thesis by (simp add: parseValue_empty_object del: parseValue.simps)
  next
    case False
    from 6(2) n have "length (stringify_members ms) < m" by simp
    with False have "parseMembers m (stringify_members ms @ ch CHR ''}'' # rest) = Inr (ms, rest)"
      by (rule "6.IH")
    with False n show ?thesis
      by (simp add: parseValue_object del: parseValue.simps)
  qed
next
  case 7
  then show ?case by simp
next
  case (8 v)
  from 8(3) obtain m where n: "n = Suc m" by (cases n) auto
  from 8(3) have "length (JSON_stringify v) \<le> n" by simp
  then have "parseValue n (JSON_stringify v @ ch CHR '']'' # rest) = Inr (v, ch CHR '']'' # rest)"
    using delimited_punctuation(2) by (rule "8.IH")
  then show ?case
    unfolding n by (simp add: parseElements_last del: parseValue.simps parseElements.simps)
next
  case (9 v w vs)
  from 9(4) obtain m where n: "n = Suc m" by (cases n) auto
  let ?u = "stringify_elements (w # vs) @ ch CHR '']'' # rest"
  from 9(4) have "length (JSON_stringify v) \<le> n" by simp
  then have a: "parseValue n (JSON_stringify v @ ch CHR '','' # ?u) = Inr (v, ch CHR '','' # ?u)"
    using delimited_punctuation(1) by (rule "9.IH"(1))
  have b: "skipWhitespace ?u = ?u"
    by (rule skipWhitespace_elements) simp
  from 9(4) n have "length (stringify_elements (w # vs)) < m" by simp
  then have c: "parseElements m ?u = Inr (w # vs, rest)"
    by (intro "9.IH"(2)) simp_all
  from a b c show ?case
    unfolding n by (simp add: parseElements_more del: parseValue.simps parseElements.simps)
next
  case 10
  then show ?case by simp
next
  case (11 k v)
  from 11(3) obtain m where n: "n = Suc m" by (cases n) auto
  from 11(3) have "length (JSON_stringify v) \<le> n" by simp
  then have a: "parseValue n (JSON_stringify v @ ch CHR ''}'' # rest) = Inr (v, ch CHR ''}'' # rest)"
    using delimited_punctuation(3) by (rule "11.IH")
  have b: "skipWhitespace (JSON_stringify v @ ch CHR ''}'' # rest) = JSON_stringify v @ ch CHR ''}'' # rest"
    by (rule skipWhitespace_stringify)
  from a b show ?case
    unfolding n by (simp add: parseMembers_last del: parseValue.simps parseMembers.simps)
next
  case (12 k v m' ms)
  from 12(4) obtain m where n: "n = Suc m" by (cases n) auto
  let ?u = "stringify_members (m' # ms) @ ch CHR ''}'' # rest"
  from 12(4) have "length (JSON_stringify v) \<le> n" by simp
  then have a: "parseValue n (JSON_stringify v @ ch CHR '','' # ?u) = Inr (v, ch CHR '','' # ?u)"
    using delimited_punctuation(1) by (rule "12.IH"(1))
  have b: "skipWhitespace (JSON_stringify v @ ch CHR '','' # ?u) = JSON_stringify v @ ch CHR '','' # ?u"
    by (rule skipWhitespace_stringify)
  have c: "skipWhitespace ?u = ?u"
    by (rule skipWhitespace_members) simp
  from 12(4) n have "length (stringify_members (m' # ms)) < m" by simp
  then have d: "parseMembers m ?u = Inr (m' # ms, rest)"
    by (intro "12.IH"(2)) simp_all
  from a b c d show ?case
    unfolding n by (simp add: parseMembers_more del: parseValue.simps parseMembers.simps)
qed

lemma JSON_parse_stringify: "JSON_parse (JSON_stringify v) = Inr v"
proof -
  have "delimited []" by (simp add: delimited_def)
  then have "parseValue (Suc (length (JSON_stringify v))) (JSON_stringify v @ []) = Inr (v, [])"
    by (intro parse_stringify(1)) simp_all
  moreover have "skipWhitespace (JSON_stringify v) = JSON_stringify v"
    using skipWhitespace_stringify [of v "[]"] by simp
  ultimately show ?thesis
    by (simp add: JSON_parse_def del: parseValue.simps)
qed

lemma bookmarkFromJSON_toJSON: "bookmarkFromJSON (bookmarkToJSON b) = Some b"
  by (simp add: bookmarkFromJSON_def bookmarkToJSON_def)

lemma bookmarksFromJSON_toJSON: "bookmarksFromJSON (bookmarksToJSON bs) = Some bs"
  by (induction bs) (simp_all add: bookmarksFromJSON_def bookmarksToJSON_def bookmarkFromJSON_toJSON)

section \<open>Persistence of the bookmarks\<close>

text \<open>
  C6: what the persisting effect has written for a collection, the loading effect of a
  component started on that storage reads back as exactly that collection, in its order.
\<close>

theorem load_persisted:
  "loadBookmarks (w'\<lparr>localStorage := localStorage (persistBookmarks w)\<rparr>) =
     Inr (w'\<lparr>localStorage := localStorage (persistBookmarks w),
              ui := (ui w')\<lparr>bookmarks := bookmarks (ui w)\<rparr>\<rparr>) \<and>
   map_sum id (\<lambda>v. bookmarks (ui v)) (mount res (persistBookmarks w)) = Inr (bookmarks (ui w))"
proof -
  have "JSON_stringify (bookmarksToJSON (bookmarks (ui w))) \<noteq> []"
    using stringify_nonempty [of "bookmarksToJSON (bookmarks (ui w))"] by auto
  then show ?thesis
    by (simp add: loadBookmarks_def mount_def fetchSurahs_def Let_def persistBookmarks_def
        JSON_parse_stringify bookmarksFromJSON_toJSON split: sum.splits)
qed

text \<open>With no blob, or with the empty string for one, the load leaves the state as it is.\<close>

lemma load_absent:
  "localStorage w (js ''quran_bookmarks'') = None \<or>
   localStorage w (js ''quran_bookmarks'') = Some [] \<Longrightarrow> loadBookmarks w = Inr w"
  by (auto simp: loadBookmarks_def)

lemma JSON_parse_not_json: "JSON_parse (js ''not-json'') = Inl SyntaxError"
  by (simp add: JSON_parse_def js_def ch_def isWhitespace_def parseNumber_def parseNatural_def isDigit_def)

text \<open>
  C1 fails on the blob \<open>not-json\<close>: \<open>JSON.parse\<close> throws a \<open>SyntaxError\<close>, nothing
  catches it, and neither the load nor the mount yields a collection.
\<close>

theorem load_malformed:
  "loadBookmarks (w\<lparr>localStorage := (localStorage w)(js ''quran_bookmarks'' \<mapsto> js ''not-json'')\<rparr>) =
     Inl SyntaxError \<and>
   mount res (w\<lparr>localStorage := (localStorage w)(js ''quran_bookmarks'' \<mapsto> js ''not-json'')\<rparr>) =
     Inl SyntaxError"
proof -
  have "js ''not-json'' \<noteq> []" by (simp add: js_def)
  then show ?thesis
    by (simp add: loadBookmarks_def mount_def fetchSurahs_def Let_def JSON_parse_not_json split: sum.splits)
qed

section \<open>The bookmark store\<close>

text \<open>
  C2, as stated, fails: with the bookmarks of ayah 1 of the first surah and ayah 2 of the
  second, in this order, and the first surah open, toggling ayah 1 twice (same label, same
  text) puts its bookmark behind the other one.
\<close>

theorem toggle_twice_counterexample:
  "bookmarks (toggleAyahBookmark (js ''en'') (exampleAyah 1)
      (toggleAyahBookmark (js ''en'') (exampleAyah 1) exampleDetail))
   = [newBookmark (js ''en'') exampleBaqara (exampleAyah 2),
      newBookmark (js ''en'') exampleFatiha (exampleAyah 1)] \<and>
   bookmarks (toggleAyahBookmark (js ''en'') (exampleAyah 1)
      (toggleAyahBookmark (js ''en'') (exampleAyah 1) exampleDetail))
   \<noteq> bookmarks exampleDetail"
  by (simp add: exampleDetail_def newBookmark_def example_defs handler_defs Let_def)

text \<open>
  C2 (amended): toggling twice with the same ayah gives back exactly the original state,
  order included, when the ayah was not bookmarked; when it was, its bookmark is removed
  and a fresh one is appended at the end of the collection.
\<close>

theorem toggle_twice:
  "(\<not> isAyahBookmarked st (numberInSurah ayah) \<longrightarrow>
      toggleAyahBookmark lang ayah (toggleAyahBookmark lang ayah st) = st) \<and>
   (\<forall>sel. selectedSurah st = Some sel \<and> isAyahBookmarked st (numberInSurah ayah) \<longrightarrow>
      toggleAyahBookmark lang ayah (toggleAyahBookmark lang ayah st) =
        st\<lparr>bookmarks :=
             filter (\<lambda>b. \<not> sameAyah (number sel) (numberInSurah ayah) b) (bookmarks st) @
             [newBookmark lang sel ayah]\<rparr>)"
proof (cases "selectedSurah st")
  case None
  then show ?thesis by (simp add: toggleAyahBookmark_def isAyahBookmarked_def)
next
  case (Some sel)
  let ?p = "sameAyah (number sel) (numberInSurah ayah)"
  show ?thesis
  proof (cases "some ?p (bookmarks st)")
    case True
    have "\<not> some ?p (filter (\<lambda>b. \<not> ?p b) (bookmarks st))"
      by (simp add: some_filter_not)
    with Some True show ?thesis
      by (simp add: toggleAyahBookmark_def isAyahBookmarked_def newBookmark_def)
  next
    case False
    have new: "?p (newBookmark lang sel ayah)"
      by (simp add: sameAyah_def newBookmark_def)
    then have "some ?p (bookmarks st @ [newBookmark lang sel ayah])"
      by (simp add: some_iff)
    moreover have "filter (\<lambda>b. \<not> ?p b) (bookmarks st @ [newBookmark lang sel ayah]) = bookmarks st"
      using False new by (simp add: filter_not_some)
    ultimately show ?thesis using Some False
      by (simp add: toggleAyahBookmark_def isAyahBookmarked_def newBookmark_def)
  qed
qed

theorem toggle_twice_witness:
  "\<not> isAyahBookmarked exampleDetail 2 \<and>
   toggleAyahBookmark (js ''en'') (exampleAyah 2)
     (toggleAyahBookmark (js ''en'') (exampleAyah 2) exampleDetail) = exampleDetail \<and>
   selectedSurah exampleDetail = Some exampleFatiha \<and>
   isAyahBookmarked exampleDetail 1 \<and>
   toggleAyahBookmark (js ''en'') (exampleAyah 1)
     (toggleAyahBookmark (js ''en'') (exampleAyah 1) exampleDetail) =
   exampleDetail\<lparr>bookmarks :=
     [newBookmark (js ''en'') exampleBaqara (exampleAyah 2),
      newBookmark (js ''en'') exampleFatiha (exampleAyah 1)]\<rparr>"
proof -
  have a: "\<not> isAyahBookmarked exampleDetail (numberInSurah (exampleAyah 2))"
    by (simp add: exampleDetail_def newBookmark_def example_defs handler_defs)
  have b: "selectedSurah exampleDetail = Some exampleFatiha \<and>
           isAyahBookmarked exampleDetail (numberInSurah (exampleAyah 1))"
    by (simp add: exampleDetail_def newBookmark_def example_defs handler_defs)
  have n: "numberInSurah (exampleAyah 1) = 1" "numberInSurah (exampleAyah 2) = 2"
    by (simp_all add: exampleAyah_def)
  have f: "filter (\<lambda>b. \<not> sameAyah (number exampleFatiha) 1 b) (bookmarks exampleDetail) =
           [newBookmark (js ''en'') exampleBaqara (exampleAyah 2)]"
    by (simp add: exampleDetail_def newBookmark_def example_defs sameAyah_def)
  from toggle_twice [of exampleDetail "exampleAyah 2" "js ''en''"] a
  have 1: "toggleAyahBookmark (js ''en'') (exampleAyah 2)
     (toggleAyahBookmark (js ''en'') (exampleAyah 2) exampleDetail) = exampleDetail"
    by blast
  from toggle_twice [of exampleDetail "exampleAyah 1" "js ''en''"] b
  have 2: "toggleAyahBookmark (js ''en'') (exampleAyah 1)
     (toggleAyahBookmark (js ''en'') (exampleAyah 1) exampleDetail) =
     exampleDetail\<lparr>bookmarks :=
       filter (\<lambda>b. \<not> sameAyah (number exampleFatiha) (numberInSurah (exampleAyah 1)) b)
         (bookmarks exampleDetail) @ [newBookmark (js ''en'') exampleFatiha (exampleAyah 1)]\<rparr>"
    by blast
  from a b 1 2 show ?thesis by (simp add: n f)
qed

lemma toggle_unique: "uniqueKeys (bookmarks st) \<Longrightarrow> uniqueKeys (bookmarks (toggleAyahBookmark lang a st))"
  by (auto simp: toggleAyahBookmark_def uniqueKeys_def Let_def some_iff sameAyah_def distinct_map_filter
      split: option.splits)

lemma delete_unique: "uniqueKeys (bookmarks st) \<Longrightarrow> uniqueKeys (bookmarks (deleteBookmark s a st))"
  by (simp add: deleteBookmark_def uniqueKeys_def distinct_map_filter)

lemma loadSurah_bookmarks: "bookmarks (ui (loadSurah s r v)) = bookmarks (ui v)"
  by (simp add: loadSurah_def Let_def split: sum.splits)

lemma handle_unique:
  "uniqueKeys (bookmarks (ui w)) \<Longrightarrow> uniqueKeys (bookmarks (ui (handle lang e w)))"
proof (cases e)
  case (ToggleAyahBookmark a)
  then show "uniqueKeys (bookmarks (ui w)) \<Longrightarrow> ?thesis"
    using toggle_unique [of "ui w" lang a]
    by (simp add: persistBookmarks_def split: option.splits)
next
  case (DeleteBookmark s a)
  then show "uniqueKeys (bookmarks (ui w)) \<Longrightarrow> ?thesis"
    using delete_unique [of "ui w" s a] by (simp add: persistBookmarks_def)
qed (auto simp: fetchSurahs_def loadSurah_def goToBookmarkedSurah_def Let_def
       split: sum.splits option.splits)

text \<open>
  C3: from a collection in which no two bookmarks share a (surah number, ayah number)
  pair, no sequence of events leads to a collection in which two do. The events include
  every toggle and every removal, at whatever surah is selected.
\<close>

theorem uniqueness_preserved:
  assumes "uniqueKeys (bookmarks (ui w))"
  shows "uniqueKeys (bookmarks (ui (run lang es w)))"
  using assms
proof (induction es arbitrary: w)
  case Nil
  then show ?case by simp
next
  case (Cons e es)
  from Cons.prems have "uniqueKeys (bookmarks (ui (handle lang e w)))"
    by (rule handle_unique)
  then show ?case by (simp add: Cons.IH)
qed

theorem uniqueness_preserved_witness:
  "uniqueKeys (bookmarks (ui (initialWorld\<lparr>ui := exampleDetail\<rparr>))) \<and>
   uniqueKeys (bookmarks (ui (run (js ''en'')
     [ToggleAyahBookmark (exampleAyah 5), ToggleAyahBookmark (exampleAyah 2),
      DeleteBookmark 2 2, ToggleAyahBookmark (exampleAyah 5), Back,
      LoadSurah exampleBaqara (ok [exampleAyah 2]), ToggleAyahBookmark (exampleAyah 2)]
     (initialWorld\<lparr>ui := exampleDetail\<rparr>))))"
proof
  show h: "uniqueKeys (bookmarks (ui (initialWorld\<lparr>ui := exampleDetail\<rparr>)))"
    by (simp add: exampleDetail_def newBookmark_def example_defs uniqueKeys_def)
  from h show "uniqueKeys (bookmarks (ui (run (js ''en'')
     [ToggleAyahBookmark (exampleAyah 5), ToggleAyahBookmark (exampleAyah 2),
      DeleteBookmark 2 2, ToggleAyahBookmark (exampleAyah 5), Back,
      LoadSurah exampleBaqara (ok [exampleAyah 2]), ToggleAyahBookmark (exampleAyah 2)]
     (initialWorld\<lparr>ui := exampleDetail\<rparr>))))"
    by (rule uniqueness_preserved)
qed

text \<open>
  C10: with no surah selected, \<open>toggleAyahBookmark\<close> changes nothing (the storage is not
  written either) and \<open>isAyahBookmarked\<close> answers false, whatever bookmarks there are.
\<close>

theorem no_selection:
  assumes "selectedSurah (ui w) = None"
  shows "toggleAyahBookmark lang ayah (ui w) = ui w \<and>
         handle lang (ToggleAyahBookmark ayah) w = w \<and>
         isAyahBookmarked (ui w) n = False"
  using assms by (simp add: toggleAyahBookmark_def isAyahBookmarked_def)

theorem no_selection_witness:
  "selectedSurah (ui exampleCatalog) = None \<and>
   bookmarks (ui exampleCatalog) = [newBookmark (js ''en'') exampleBaqara (exampleAyah 5)] \<and>
   toggleAyahBookmark (js ''en'') (exampleAyah 5) (ui exampleCatalog) = ui exampleCatalog \<and>
   handle (js ''en'') (ToggleAyahBookmark (exampleAyah 5)) exampleCatalog = exampleCatalog \<and>
   isAyahBookmarked (ui exampleCatalog) 5 = False"
proof -
  have h: "selectedSurah (ui exampleCatalog) = None"
    by (simp add: exampleCatalog_def example_defs handler_defs Let_def)
  have b: "bookmarks (ui exampleCatalog) = [newBookmark (js ''en'') exampleBaqara (exampleAyah 5)]"
    by (simp add: exampleCatalog_def example_defs handler_defs Let_def newBookmark_def)
  from no_selection [OF h, of "js ''en''" "exampleAyah 5" 5] h b show ?thesis by simp
qed

text \<open>
  \<open>isAyahBookmarked\<close> is the membership test by key for the surah that is selected.
\<close>

lemma isAyahBookmarked_contains:
  "isAyahBookmarked st a =
     (case selectedSurah st of None \<Rightarrow> False | Some sel \<Rightarrow> contains (number sel) a st)"
  by (simp add: isAyahBookmarked_def contains_def split: option.splits)

text \<open>
  C7: after a bookmark is toggled on for an ayah of the selected surah and another surah
  is loaded, with or without success, the collection is what the toggle left and the
  membership test for the key of that bookmark is still true. Loading a surah changes
  neither the collection nor the answer of the membership test for any key.
\<close>

theorem bookmark_survives_load:
  assumes "selectedSurah (ui w) = Some s2"
    and "\<not> isAyahBookmarked (ui w) (numberInSurah ayah)"
  shows "bookmarks (ui (run lang [ToggleAyahBookmark ayah, LoadSurah s1 r] w)) =
           bookmarks (ui w) @ [newBookmark lang s2 ayah] \<and>
         some (sameAyah (number s2) (numberInSurah ayah))
           (bookmarks (ui (run lang [ToggleAyahBookmark ayah, LoadSurah s1 r] w))) \<and>
         contains (number s2) (numberInSurah ayah)
           (ui (run lang [ToggleAyahBookmark ayah, LoadSurah s1 r] w)) \<and>
         bookmarks (ui (loadSurah s r' v)) = bookmarks (ui v) \<and>
         contains k a (ui (loadSurah s r' v)) = contains k a (ui v)"
proof -
  have new: "sameAyah (number s2) (numberInSurah ayah) (newBookmark lang s2 ayah)"
    by (simp add: sameAyah_def newBookmark_def)
  have t: "bookmarks (toggleAyahBookmark lang ayah (ui w)) = bookmarks (ui w) @ [newBookmark lang s2 ayah]"
    using assms by (simp add: toggleAyahBookmark_def isAyahBookmarked_def newBookmark_def)
  have b: "bookmarks (ui (run lang [ToggleAyahBookmark ayah, LoadSurah s1 r] w)) =
           bookmarks (ui w) @ [newBookmark lang s2 ayah]"
    using assms(1) t by (simp add: loadSurah_bookmarks persistBookmarks_def)
  have m: "some (sameAyah (number s2) (numberInSurah ayah)) (bookmarks (ui w) @ [newBookmark lang s2 ayah])"
    using new by (simp add: some_iff)
  show ?thesis
    using m by (simp only: b contains_def loadSurah_bookmarks simp_thms)
qed

theorem bookmark_survives_load_witness:
  "selectedSurah (ui exampleReading) = Some exampleBaqara \<and>
   \<not> isAyahBookmarked (ui exampleReading) 5 \<and>
   bookmarks (ui (run (js ''en'')
      [ToggleAyahBookmark (exampleAyah 5), LoadSurah exampleFatiha (ok [exampleAyah 1])]
      exampleReading)) = [newBookmark (js ''en'') exampleBaqara (exampleAyah 5)] \<and>
   selectedSurah (ui (run (js ''en'')
      [ToggleAyahBookmark (exampleAyah 5), LoadSurah exampleFatiha (ok [exampleAyah 1])]
      exampleReading)) = Some exampleFatiha \<and>
   contains 2 5 (ui (run (js ''en'')
      [ToggleAyahBookmark (exampleAyah 5), LoadSurah exampleFatiha (ok [exampleAyah 1])]
      exampleReading))"
proof -
  have h1: "selectedSurah (ui exampleReading) = Some exampleBaqara"
    by (simp add: exampleReading_def example_defs handler_defs Let_def)
  have h2: "\<not> isAyahBookmarked (ui exampleReading) (numberInSurah (exampleAyah 5))"
    by (simp add: exampleReading_def example_defs handler_defs Let_def)
  have e: "bookmarks (ui exampleReading) = []" "numberInSurah (exampleAyah 5) = 5"
    "number exampleBaqara = 2"
    by (simp_all add: exampleReading_def example_defs handler_defs Let_def)
  have s: "selectedSurah (ui (run (js ''en'')
      [ToggleAyahBookmark (exampleAyah 5), LoadSurah exampleFatiha (ok [exampleAyah 1])]
      exampleReading)) = Some exampleFatiha"
    using h1 by (simp add: loadSurah_def ok_def decoded_def Let_def persistBookmarks_def)
  from bookmark_survives_load [OF h1 h2, of "js ''en''" exampleFatiha "ok [exampleAyah 1]"]
  have "bookmarks (ui (run (js ''en'')
      [ToggleAyahBookmark (exampleAyah 5), LoadSurah exampleFatiha (ok [exampleAyah 1])]
      exampleReading)) = [newBookmark (js ''en'') exampleBaqara (exampleAyah 5)] \<and>
    contains 2 5 (ui (run (js ''en'')
      [ToggleAyahBookmark (exampleAyah 5), LoadSurah exampleFatiha (ok [exampleAyah 1])]
      exampleReading))"
    by (simp only: e append_Nil)
  with h1 h2 s show ?thesis by (simp only: e simp_thms)
qed

section \<open>The catalogue\<close>

text \<open>C9: with the empty query the filter returns the whole catalogue, in its order.\<close>

theorem filter_empty_query: "filteredSurahs toLowerCase (st\<lparr>searchTerm := []\<rparr>) = surahs st"
  by (simp add: filteredSurahs_def includes_js_empty)

text \<open>
  All that the example below needs of \<open>toLowerCase\<close>: what it makes of the two English
  names and of the two queries.
\<close>

lemma filter_ignores_language:
  assumes "toLowerCase (js ''Al-Faatiha'') = js ''al-faatiha''"
    and "toLowerCase (js ''Al-Baqara'') = js ''al-baqara''"
    and "toLowerCase (js ''baq'') = js ''baq''"
    and "toLowerCase [0x628, 0x642, 0x631] = [0x628, 0x642, 0x631]"
  shows "filteredSurahs toLowerCase
     (initialState\<lparr>surahs := [exampleFatiha, exampleBaqara], searchTerm := js ''baq''\<rparr>)
     = [exampleBaqara] \<and>
   filterByLanguage toLowerCase (js ''ar'') (js ''baq'') [exampleFatiha, exampleBaqara] = [] \<and>
   filteredSurahs toLowerCase
     (initialState\<lparr>surahs := [exampleFatiha, exampleBaqara], searchTerm := [0x628, 0x642, 0x631]\<rparr>)
     = [exampleBaqara] \<and>
   filterByLanguage toLowerCase (js ''en'') [0x628, 0x642, 0x631] [exampleFatiha, exampleBaqara] = []"
  by (simp add: filteredSurahs_def filterByLanguage_def example_defs assms) (simp add: js_def ch_def)

text \<open>
  C4, as stated, fails: the filter does not look at the language. With Arabic active the
  query \<open>baq\<close> still finds the second surah by its English name, and with English active
  the Arabic query finds it by its Arabic name.
\<close>

theorem filter_by_language_counterexample:
  "filteredSurahs asciiLowerCase
     (initialState\<lparr>surahs := [exampleFatiha, exampleBaqara], searchTerm := js ''baq''\<rparr>)
     = [exampleBaqara] \<and>
   filterByLanguage asciiLowerCase (js ''ar'') (js ''baq'') [exampleFatiha, exampleBaqara] = [] \<and>
   filteredSurahs asciiLowerCase
     (initialState\<lparr>surahs := [exampleFatiha, exampleBaqara], searchTerm := [0x628, 0x642, 0x631]\<rparr>)
     = [exampleBaqara] \<and>
   filterByLanguage asciiLowerCase (js ''en'') [0x628, 0x642, 0x631] [exampleFatiha, exampleBaqara] = []"
  by (rule filter_ignores_language)
     (simp_all add: asciiLowerCase_def asciiLowerUnit_def js_def ch_def)

text \<open>
  C4 (amended): the filter returns, in catalogue order, exactly the surahs whose name
  contains the query as it is or whose English name in lower case contains the query in
  lower case, whatever the language; and this whatever \<open>toLowerCase\<close> does to a string.
\<close>

theorem filter_criterion:
  "filteredSurahs toLowerCase st =
     filter (\<lambda>s. (\<exists>pre post. name s = pre @ searchTerm st @ post) \<or>
                 (\<exists>pre post. toLowerCase (englishName s) = pre @ toLowerCase (searchTerm st) @ post))
       (surahs st)"
  by (simp add: filteredSurahs_def includes_js_iff)

text \<open>
  C8, as stated, fails: an answer with status 500 whose body decodes is a failed fetch
  for the specification, and \<open>fetchSurahs\<close> stores its data, clears \<open>loading\<close> and logs
  nothing.
\<close>

theorem fetch_failure_counterexample:
  "fetchFails (Inr (Response 500 (Inr [exampleFatiha])) :: error + Surah list response) \<and>
   surahs (ui initialWorld) = [] \<and>
   loading (ui initialWorld) = True \<and>
   surahs (ui (fetchSurahs (Inr (Response 500 (Inr [exampleFatiha]))) initialWorld)) = [exampleFatiha] \<and>
   loading (ui (fetchSurahs (Inr (Response 500 (Inr [exampleFatiha]))) initialWorld)) = False \<and>
   console (fetchSurahs (Inr (Response 500 (Inr [exampleFatiha]))) initialWorld) = []"
  by (simp add: fetchFails_def fetchSurahs_def decoded_def initialWorld_def initialState_def)

text \<open>
  C8 (amended): when \<open>fetch\<close> rejects, or the body of the answer does not decode, the state
  of the component and the storage are what they were; the error is logged, and the one
  request that failed is the only one made. The status of an answer plays no part: when
  its body decodes, the data replace the catalogue and \<open>loading\<close> is cleared.
\<close>

theorem fetch_failure:
  "ui (fetchSurahs (Inl err) w) = ui w \<and>
   localStorage (fetchSurahs (Inl err) w) = localStorage w \<and>
   console (fetchSurahs (Inl err) w) = console w @ [err] \<and>
   requests (fetchSurahs (Inl err) w) = requests w @ [js ''https://api.alquran.cloud/v1/surah''] \<and>
   ui (fetchSurahs (Inr (Response code (Inl err))) w) = ui w \<and>
   localStorage (fetchSurahs (Inr (Response code (Inl err))) w) = localStorage w \<and>
   console (fetchSurahs (Inr (Response code (Inl err))) w) = console w @ [err] \<and>
   requests (fetchSurahs (Inr (Response code (Inl err))) w) =
     requests w @ [js ''https://api.alquran.cloud/v1/surah''] \<and>
   fetchSurahs (Inr (Response code (Inr data))) w =
     w\<lparr>ui := (ui w)\<lparr>surahs := data, loading := False\<rparr>,
       requests := requests w @ [js ''https://api.alquran.cloud/v1/surah'']\<rparr>"
  by (simp add: fetchSurahs_def decoded_def)

section \<open>Navigation\<close>

text \<open>
  C5, as stated, fails: from the catalogue showing bookmarks only, opening the bookmarked
  surah and going back ends in the catalogue showing all surahs.
\<close>

theorem select_then_back_counterexample:
  "selectedSurah (ui exampleCatalog) = None \<and>
   showBookmarksOnly (ui exampleCatalog) = True \<and>
   selectedSurah (ui (handle (js ''en'') (GoToBookmarkedSurah 2 (ok [exampleAyah 5])) exampleCatalog))
     = Some exampleBaqara \<and>
   selectedSurah (ui (run (js ''en'') [GoToBookmarkedSurah 2 (ok [exampleAyah 5]), Back] exampleCatalog))
     = None \<and>
   showBookmarksOnly (ui (run (js ''en'') [GoToBookmarkedSurah 2 (ok [exampleAyah 5]), Back] exampleCatalog))
     \<noteq> showBookmarksOnly (ui exampleCatalog)"
  by (simp add: exampleCatalog_def example_defs handler_defs Let_def)

text \<open>
  C5 (amended): opening a surah with success and going back ends with no surah selected
  and the bookmarks-only flag false, whatever it was before.
\<close>

theorem select_then_back:
  assumes "decoded r = Inr items"
    and "e = LoadSurah s r \<or>
         e = GoToBookmarkedSurah n r \<and>
         find (\<lambda>x. number x = n) (surahs (ui w)) = Some s"
  shows "ui (run lang [e, Back] w) =
         (ui w)\<lparr>ayahs := items, selectedSurah := None, loading := False,
                showBookmarksOnly := False\<rparr>"
  using assms by (auto simp: loadSurah_def goToBookmarkedSurah_def Let_def)

theorem select_then_back_witness:
  "decoded (ok [exampleAyah 5]) = Inr [exampleAyah 5] \<and>
   find (\<lambda>x. number x = 2) (surahs (ui exampleCatalog)) = Some exampleBaqara \<and>
   ui (run (js ''en'') [GoToBookmarkedSurah 2 (ok [exampleAyah 5]), Back] exampleCatalog) =
   (ui exampleCatalog)\<lparr>ayahs := [exampleAyah 5], selectedSurah := None, loading := False,
                       showBookmarksOnly := False\<rparr>"
proof -
  have d: "decoded (ok [exampleAyah 5]) = Inr [exampleAyah 5]"
    by (simp add: ok_def decoded_def)
  have h: "find (\<lambda>x. number x = 2) (surahs (ui exampleCatalog)) = Some exampleBaqara"
    by (simp add: exampleCatalog_def example_defs handler_defs Let_def)
  then have "GoToBookmarkedSurah 2 (ok [exampleAyah 5]) = LoadSurah exampleBaqara (ok [exampleAyah 5]) \<or>
        GoToBookmarkedSurah 2 (ok [exampleAyah 5]) = GoToBookmarkedSurah 2 (ok [exampleAyah 5]) \<and>
        find (\<lambda>x. number x = 2) (surahs (ui exampleCatalog)) = Some exampleBaqara"
    by simp
  from select_then_back [OF d this] d h show ?thesis by simp
qed

end
